theory Spec2Isabelle
  imports Main "HOL-Library.Multiset"
begin

section \<open>Strings of the Go runtime\<close>

text \<open>
  A Go string is a sequence of bytes and \<^verbatim>\<open>len\<close> counts bytes, so a string is a
  \<^typ>\<open>char list\<close> with one \<^typ>\<open>char\<close> per byte; text outside ASCII appears as its
  UTF-8 bytes. Go's \<^verbatim>\<open>int\<close> is modelled by \<^typ>\<open>int\<close>: every count in the
  program is far from the 64-bit range. A slice expression \<^verbatim>\<open>s[:n]\<close> panics unless
  \<open>0 \<le> n \<le> len(s)\<close>; a panic is the value \<open>None\<close>.
\<close>

definition slice_to :: "string \<Rightarrow> int \<Rightarrow> string option" where
  "slice_to s n = (if 0 \<le> n \<and> n \<le> int (length s) then Some (take (nat n) s) else None)"

text \<open>
  \<^verbatim>\<open>unicode.IsSpace\<close> accepts the code points U+0009..U+000D, U+0020, U+0085, U+00A0,
  U+1680, U+2000..U+200A, U+2028, U+2029, U+202F, U+205F and U+3000. The table lists their
  UTF-8 encodings. A lead byte or an ASCII byte always starts a rune when Go decodes a
  string (only continuation bytes \<open>0x80..0xBF\<close> are consumed inside a rune, and an
  invalid byte is a rune of width one), so a white-space rune sits at a position exactly
  when one of these encodings starts there, also in ill-formed text.
\<close>

definition spaceRunes :: "string list" where
  "spaceRunes =
    [[CHR 0x09], [CHR 0x0A], [CHR 0x0B], [CHR 0x0C], [CHR 0x0D], [CHR 0x20],
     [CHR 0xC2, CHR 0x85], [CHR 0xC2, CHR 0xA0],
     [CHR 0xE1, CHR 0x9A, CHR 0x80],
     [CHR 0xE2, CHR 0x80, CHR 0x80], [CHR 0xE2, CHR 0x80, CHR 0x81],
     [CHR 0xE2, CHR 0x80, CHR 0x82], [CHR 0xE2, CHR 0x80, CHR 0x83],
     [CHR 0xE2, CHR 0x80, CHR 0x84], [CHR 0xE2, CHR 0x80, CHR 0x85],
     [CHR 0xE2, CHR 0x80, CHR 0x86], [CHR 0xE2, CHR 0x80, CHR 0x87],
     [CHR 0xE2, CHR 0x80, CHR 0x88], [CHR 0xE2, CHR 0x80, CHR 0x89],
     [CHR 0xE2, CHR 0x80, CHR 0x8A],
     [CHR 0xE2, CHR 0x80, CHR 0xA8], [CHR 0xE2, CHR 0x80, CHR 0xA9],
     [CHR 0xE2, CHR 0x80, CHR 0xAF],
     [CHR 0xE2, CHR 0x81, CHR 0x9F],
     [CHR 0xE3, CHR 0x80, CHR 0x80]]"

text \<open>The width in bytes of the white-space rune at the head of a string, 0 when there is none.\<close>

definition spaceWidth :: "string \<Rightarrow> nat" where
  "spaceWidth s =
     (case find (\<lambda>p. take (length p) s = p) spaceRunes of
        None \<Rightarrow> 0 | Some p \<Rightarrow> length p)"

text \<open>The width of the white-space rune that ends a string, 0 when there is none.\<close>

definition trailingSpaceWidth :: "string \<Rightarrow> nat" where
  "trailingSpaceWidth s =
     (case find (\<lambda>p. length p \<le> length s \<and> drop (length s - length p) s = p) spaceRunes of
        None \<Rightarrow> 0 | Some p \<Rightarrow> length p)"

function trimLeftSpace :: "string \<Rightarrow> string" where
  "trimLeftSpace s =
     (if s = [] \<or> spaceWidth s = 0 then s else trimLeftSpace (drop (spaceWidth s) s))"
  by pat_completeness auto
termination
  by (relation "measure length") auto

declare trimLeftSpace.simps [simp del]

function trimRightSpace :: "string \<Rightarrow> string" where
  "trimRightSpace s =
     (if s = [] \<or> trailingSpaceWidth s = 0 then s
      else trimRightSpace (take (length s - trailingSpaceWidth s) s))"
  by pat_completeness auto
termination
  by (relation "measure length") auto

declare trimRightSpace.simps [simp del]

text \<open>\<^verbatim>\<open>strings.TrimSpace\<close>: leading white space is removed, then trailing white space.\<close>

definition strings_TrimSpace :: "string \<Rightarrow> string" where
  "strings_TrimSpace s = trimRightSpace (trimLeftSpace s)"

text \<open>
  \<^verbatim>\<open>strings.Fields\<close>: the maximal runs of bytes that belong to no white-space rune.
  \<open>fieldsFrom cur s\<close> scans \<open>s\<close> with the field \<open>cur\<close> under construction.
\<close>

definition flushField :: "string \<Rightarrow> string list" where
  "flushField cur = (if cur = [] then [] else [cur])"

function fieldsFrom :: "string \<Rightarrow> string \<Rightarrow> string list" where
  "fieldsFrom cur [] = flushField cur"
| "fieldsFrom cur (c # cs) =
     (if spaceWidth (c # cs) = 0 then fieldsFrom (cur @ [c]) cs
      else flushField cur @ fieldsFrom [] (drop (spaceWidth (c # cs)) (c # cs)))"
  by pat_completeness auto
termination
  by (relation "measure (\<lambda>(cur, s). length s)") auto

definition strings_Fields :: "string \<Rightarrow> string list" where
  "strings_Fields s = fieldsFrom [] s"

fun strings_Join :: "string list \<Rightarrow> string \<Rightarrow> string" where
  "strings_Join [] sep = []"
| "strings_Join [x] sep = x"
| "strings_Join (x # y # ys) sep = x @ sep @ strings_Join (y # ys) sep"

text \<open>
  \<^verbatim>\<open>strings.LastIndex\<close>: the greatest index at which \<open>sub\<close> occurs in \<open>s\<close>, \<open>-1\<close> when it
  does not occur.
\<close>

definition strings_LastIndex :: "string \<Rightarrow> string \<Rightarrow> int" where
  "strings_LastIndex s sub =
     (if length s < length sub then - 1
      else case find (\<lambda>i. take (length sub) (drop i s) = sub)
                  (rev [0 ..< Suc (length s - length sub)]) of
             None \<Rightarrow> - 1 | Some i \<Rightarrow> int i)"

text \<open>A continuation byte of UTF-8, \<open>0x80..0xBF\<close>.\<close>

definition isCont :: "char \<Rightarrow> bool" where
  "isCont c \<longleftrightarrow> 128 \<le> (of_char c :: nat) \<and> (of_char c :: nat) < 192"

text \<open>
  A word as \<^verbatim>\<open>strings.Fields\<close> returns it: not empty, and no white-space rune starts
  inside it when a blank follows.
\<close>

definition isWord :: "string \<Rightarrow> bool" where
  "isWord w \<longleftrightarrow> w \<noteq> [] \<and> list_all (\<lambda>i. spaceWidth (drop i w @ '' '') = 0) [0 ..< length w]"

section \<open>Truncation\<close>

text \<open>\<^verbatim>\<open>trimForDiscord\<close> and \<^verbatim>\<open>summarizeText\<close> of \<^verbatim>\<open>internal/usecase/daily_digest.go\<close>.\<close>

definition trimForDiscord :: "string \<Rightarrow> int \<Rightarrow> string option" where
  "trimForDiscord content limit =
     (if int (length content) \<le> limit then Some content
      else case slice_to content limit of
        None \<Rightarrow> None
      | Some trimmed \<Rightarrow>
          (let lastSpace = strings_LastIndex trimmed '' '' in
           case (if lastSpace > 0 then slice_to trimmed lastSpace else Some trimmed) of
             None \<Rightarrow> None
           | Some trimmed' \<Rightarrow> Some (trimmed' @ ''...'')))"

definition summarizeText :: "string \<Rightarrow> int \<Rightarrow> string option" where
  "summarizeText content limit =
     (let clean = strings_Join (strings_Fields content) '' '' in
      if clean = [] then Some []
      else if int (length clean) \<le> limit then Some clean
      else case slice_to clean limit of
        None \<Rightarrow> None
      | Some trimmed \<Rightarrow>
          (let lastSpace = strings_LastIndex trimmed '' '' in
           case (if lastSpace > 0 then slice_to trimmed lastSpace else Some trimmed) of
             None \<Rightarrow> None
           | Some trimmed' \<Rightarrow> Some (trimmed' @ ''...'')))"

text \<open>\<^verbatim>\<open>trimText\<close> of \<^verbatim>\<open>internal/adapter/writing/gemini_writer.go\<close>.\<close>

definition trimText :: "string \<Rightarrow> int \<Rightarrow> string option" where
  "trimText text' max' =
     (if int (length text') \<le> max' then Some text'
      else case slice_to text' (max' - 3) of
        None \<Rightarrow> None
      | Some pre \<Rightarrow> Some (strings_TrimSpace pre @ ''...''))"


section \<open>Domain model\<close>

text \<open>
  The structs of \<^verbatim>\<open>internal/domain/model\<close>. A Go \<^verbatim>\<open>error\<close> carries a message. A call
  that returns \<^verbatim>\<open>(value, error)\<close> is a sum: every caller in this program tests the
  error first and drops the value when it is set.
\<close>

datatype error = Error string

record Problem =
  ID :: int
  Title :: string
  Slug :: string
  Difficulty :: string
  Link :: string
  Content :: string
  Topics :: "string list"

record Article =
  Title :: string
  Link :: string
  Source :: string

record NotificationField =
  Name :: string
  Value :: string
  Inline :: bool

record Notification =
  Title :: string
  Description :: string
  Fields :: "NotificationField list"

section \<open>The digest assembler\<close>

text \<open>\<^verbatim>\<open>%d\<close> of \<^verbatim>\<open>fmt.Sprintf\<close> on a non-negative number: its decimal digits.\<close>

definition digit :: "nat \<Rightarrow> char" where
  "digit d = char_of (48 + d)"

function itoa :: "nat \<Rightarrow> string" where
  "itoa n = (if n < 10 then [digit n] else itoa (n div 10) @ [digit (n mod 10)])"
  by pat_completeness auto
termination
  by (relation "measure id") auto

declare itoa.simps [simp del]

definition formatProblemDetail :: "Problem \<Rightarrow> string option" where
  "formatProblemDetail p =
     (let b1 = ''**Link:** ['' @ Problem.Title p @ '']('' @ Problem.Link p @ '')\<newline>'';
          b2 = b1 @ ''**Difficulty:** '' @ Difficulty p @ ''\<newline>'';
          b3 = (if length (Topics p) > 0
                then b2 @ ''**Topics:** '' @ strings_Join (Topics p) '', '' @ ''\<newline>''
                else b2)
      in if Content p \<noteq> [] then
           (case summarizeText (Content p) 420 of
              None \<Rightarrow> None
            | Some summary \<Rightarrow>
                if summary \<noteq> [] then Some (b3 @ ''\<newline>> _'' @ summary @ ''_'')
                else Some b3)
         else Some b3)"

definition practiceLine :: "nat \<times> Problem \<Rightarrow> string" where
  "practiceLine ip =
     (case ip of (i, p) \<Rightarrow>
        ''**'' @ itoa (i + 1) @ ''. ['' @ Problem.Title p @ '']('' @ Problem.Link p
          @ '')**\<newline>   Difficulty: *'' @ Difficulty p @ ''*'')"

definition formatPracticeQueue :: "Problem list \<Rightarrow> string" where
  "formatPracticeQueue problems =
     strings_Join (map practiceLine (enumerate 0 problems)) ''\<newline>\<newline>''"

definition articleLine :: "nat \<times> Article \<Rightarrow> string" where
  "articleLine ia =
     (case ia of (i, a) \<Rightarrow>
        (let source = (if Source a = [] then ''Curated'' else Source a)
         in ''**'' @ itoa (i + 1) @ ''.** ['' @ Article.Title a @ '']('' @ Article.Link a
              @ '')\<newline>   _from '' @ source @ ''_''))"

definition formatArticleList :: "Article list \<Rightarrow> string" where
  "formatArticleList articles =
     strings_Join (map articleLine (enumerate 0 articles)) ''\<newline>\<newline>''"

text \<open>The two Vietnamese sentences of \<^verbatim>\<open>fallbackDescription\<close>, as their UTF-8 bytes.\<close>

definition topicsLead :: string where
  "topicsLead =
     ''Ch'' @ [CHR 0xE1, CHR 0xBB, CHR 0xA7] @ '' '' @ [CHR 0xC4, CHR 0x91, CHR 0xE1, CHR 0xBB, CHR 0x81]
       @ '' tr'' @ [CHR 0xE1, CHR 0xBB, CHR 0x8D] @ ''ng t'' @ [CHR 0xC3, CHR 0xA2] @ ''m: ''"

definition noTopicsSentence :: string where
  "noTopicsSentence =
     ''T'' @ [CHR 0xE1, CHR 0xBA, CHR 0xAD] @ ''p trung ph'' @ [CHR 0xC3, CHR 0xA2] @ ''n t''
       @ [CHR 0xC3, CHR 0xAD] @ ''ch k'' @ [CHR 0xE1, CHR 0xBB, CHR 0xB9] @ '' thu''
       @ [CHR 0xE1, CHR 0xBA, CHR 0xAD] @ ''t l'' @ [CHR 0xC3, CHR 0xB5] @ ''i v''
       @ [CHR 0xC3, CHR 0xA0] @ '' c'' @ [CHR 0xC3, CHR 0xA1] @ ''ch t''
       @ [CHR 0xE1, CHR 0xBB, CHR 0x91] @ ''i '' @ [CHR 0xC6, CHR 0xB0] @ ''u l''
       @ [CHR 0xE1, CHR 0xBB, CHR 0x9D] @ ''i gi'' @ [CHR 0xE1, CHR 0xBA, CHR 0xA3] @ ''i.''"

definition fallbackDescription :: "Problem option \<Rightarrow> string" where
  "fallbackDescription daily =
     (case daily of
        None \<Rightarrow> ''Curated plan for algorithms practice today.''
      | Some d \<Rightarrow>
          (let description = ''**Daily Focus:** '' @ Problem.Title d @ '' ('' @ Difficulty d
                               @ '')\<newline>''
           in if length (Topics d) > 0
              then description @ topicsLead @ strings_Join (Topics d) '', '' @ ''.''
              else description @ noTopicsSentence))"

text \<open>
  \<^verbatim>\<open>buildNotification\<close>. The initial value of \<^verbatim>\<open>description\<close> is overwritten on both
  branches of the test on \<^verbatim>\<open>insight\<close>.
\<close>

definition buildNotification ::
  "Problem option \<Rightarrow> Problem list \<Rightarrow> Article list \<Rightarrow> string \<Rightarrow> Notification option" where
  "buildNotification daily random articles insight =
     (case (case daily of
              None \<Rightarrow> Some []
            | Some d \<Rightarrow>
                (case formatProblemDetail d of
                   None \<Rightarrow> None
                 | Some v \<Rightarrow> Some [\<lparr>Name = ''Daily Challenge'', Value = v, Inline = False\<rparr>])) of
        None \<Rightarrow> None
      | Some fields1 \<Rightarrow>
          (let fields2 = (if length random > 0
                          then fields1 @ [\<lparr>Name = ''Practice Queue'',
                                           Value = formatPracticeQueue random, Inline = False\<rparr>]
                          else fields1);
               fields3 = (if length articles > 0
                          then fields2 @ [\<lparr>Name = ''Algorithm Reading List'',
                                           Value = formatArticleList articles, Inline = False\<rparr>]
                          else fields2);
               description = (if insight \<noteq> [] then insight else fallbackDescription daily)
           in Some \<lparr>Notification.Title = ''Daily LeetCode & Algorithms Digest'',
                    Description = description,
                    Fields = fields3\<rparr>))"


section \<open>The digest run\<close>

text \<open>
  The ports of \<^verbatim>\<open>internal/domain/ports\<close>. An external call is modelled by its outcome:
  a provider is the function from the requested count to what the call returns, the
  writer a function of its three arguments, the notifier a function of the notification.
  \<^verbatim>\<open>GetDailyChallenge\<close> returns a pointer, which may be nil. The optional collaborators
  (\<^verbatim>\<open>articles\<close>, \<^verbatim>\<open>writer\<close>) may be nil interfaces. The logger is a side channel that
  decides no branch and is left out.
\<close>

record ProblemProvider =
  GetDailyChallenge :: "error + Problem option"
  GetRandomProblems :: "int \<Rightarrow> error + Problem list"

type_synonym ArticleProvider = "int \<Rightarrow> error + Article list"

type_synonym ArticleWriter =
  "Problem option \<Rightarrow> Problem list \<Rightarrow> Article list \<Rightarrow> error + string"

type_synonym Notifier = "Notification \<Rightarrow> error option"

record DailyDigest =
  problems :: ProblemProvider
  articles :: "ArticleProvider option"
  writer :: "ArticleWriter option"
  notifier :: Notifier
  randomCount :: int
  articleCount :: int

text \<open>
  The loop of \<^verbatim>\<open>fetchRandomProblems\<close>: \<open>seen\<close> is the set of slugs met so far and
  \<open>unique\<close> the slice built by \<^verbatim>\<open>append\<close>.
\<close>

fun uniqueLoop :: "string set \<Rightarrow> Problem list \<Rightarrow> Problem list \<Rightarrow> Problem list" where
  "uniqueLoop seen unique [] = unique"
| "uniqueLoop seen unique (p # ps) =
     (if Slug p \<in> seen then uniqueLoop seen unique ps
      else uniqueLoop (insert (Slug p) seen) (unique @ [p]) ps)"

definition fetchRandomProblems :: "DailyDigest \<Rightarrow> Problem option \<Rightarrow> Problem list" where
  "fetchRandomProblems d daily =
     (if randomCount d \<le> 0 then []
      else case GetRandomProblems (problems d) (randomCount d) of
        Inl err \<Rightarrow> []
      | Inr ps \<Rightarrow>
          (let dailySlug = (case daily of None \<Rightarrow> [] | Some p \<Rightarrow> Slug p);
               seen = (if dailySlug \<noteq> [] then {dailySlug} else {})
           in uniqueLoop seen [] ps))"

definition fetchArticles :: "DailyDigest \<Rightarrow> Article list" where
  "fetchArticles d =
     (case articles d of
        None \<Rightarrow> []
      | Some provider \<Rightarrow>
          if articleCount d \<le> 0 then []
          else (case provider (articleCount d) of Inl err \<Rightarrow> [] | Inr as \<Rightarrow> as))"

definition composeInsight ::
  "DailyDigest \<Rightarrow> Problem option \<Rightarrow> Problem list \<Rightarrow> Article list \<Rightarrow> string option" where
  "composeInsight d daily random as =
     (case writer d of
        None \<Rightarrow> Some []
      | Some w \<Rightarrow>
          (case w daily random as of
             Inl err \<Rightarrow> Some []
           | Inr insight \<Rightarrow> trimForDiscord insight 1900))"

text \<open>
  \<^verbatim>\<open>Run\<close> returns its error together with the notifications handed to the notifier, in
  order; \<open>None\<close> is a panic.
\<close>

record RunResult =
  err :: "error option"
  sent :: "Notification list"

definition Run :: "DailyDigest \<Rightarrow> RunResult option" where
  "Run d =
     (case GetDailyChallenge (problems d) of
        Inl e \<Rightarrow> Some \<lparr>err = Some e, sent = []\<rparr>
      | Inr daily \<Rightarrow>
          (let randomProblems = fetchRandomProblems d daily;
               as = fetchArticles d
           in case composeInsight d daily randomProblems as of
                None \<Rightarrow> None
              | Some insight \<Rightarrow>
                  (case buildNotification daily randomProblems as insight of
                     None \<Rightarrow> None
                   | Some notification \<Rightarrow>
                       Some \<lparr>err = notifier d notification, sent = [notification]\<rparr>)))"

section \<open>The composite article provider\<close>

text \<open>
  \<^verbatim>\<open>strings.ToLower\<close> maps runes through the Unicode case tables of the Go library; it is
  taken as the parameter \<open>toLower\<close>.
\<close>

definition canonicalArticleKey :: "(string \<Rightarrow> string) \<Rightarrow> Article \<Rightarrow> string" where
  "canonicalArticleKey toLower article =
     (if Article.Link article \<noteq> [] then toLower (strings_TrimSpace (Article.Link article))
      else if Article.Title article \<noteq> [] then toLower (strings_TrimSpace (Article.Title article))
      else [])"

text \<open>The inner loop over the items of one provider, with its \<^verbatim>\<open>break\<close>.\<close>

fun collectItems ::
  "(string \<Rightarrow> string) \<Rightarrow> int \<Rightarrow> Article list \<times> string set \<Rightarrow> Article list
     \<Rightarrow> Article list \<times> string set" where
  "collectItems toLower count' (results, seen) [] = (results, seen)"
| "collectItems toLower count' (results, seen) (item # items) =
     (let key = canonicalArticleKey toLower item
      in if key = [] then collectItems toLower count' (results, seen) items
         else if key \<in> seen then collectItems toLower count' (results, seen) items
         else if int (length (results @ [item])) \<ge> count'
              then (results @ [item], insert key seen)
              else collectItems toLower count' (results @ [item], insert key seen) items)"

text \<open>
  The outer loop over the providers: state \<open>(results, seen, firstErr)\<close>. The list of
  providers is the one kept by \<^verbatim>\<open>NewCompositeProvider\<close>, without the nil entries.
\<close>

fun queryProviders ::
  "(string \<Rightarrow> string) \<Rightarrow> int \<Rightarrow> Article list \<times> string set \<times> error option
     \<Rightarrow> ArticleProvider list \<Rightarrow> Article list \<times> string set \<times> error option" where
  "queryProviders toLower count' (results, seen, firstErr) [] = (results, seen, firstErr)"
| "queryProviders toLower count' (results, seen, firstErr) (provider # rest) =
     (if int (length results) \<ge> count' then (results, seen, firstErr)
      else case provider (count' - int (length results)) of
        Inl e \<Rightarrow>
          queryProviders toLower count'
            (results, seen, (if firstErr = None then Some e else firstErr)) rest
      | Inr items \<Rightarrow>
          (case collectItems toLower count' (results, seen) items of
             (results', seen') \<Rightarrow>
               queryProviders toLower count' (results', seen', firstErr) rest))"

definition Composite_GetRecommendedArticles ::
  "(string \<Rightarrow> string) \<Rightarrow> ArticleProvider list \<Rightarrow> int \<Rightarrow> error + Article list" where
  "Composite_GetRecommendedArticles toLower providers count' =
     (if count' \<le> 0 then Inr []
      else case queryProviders toLower count' ([], {}, None) providers of
        (results, seen, firstErr) \<Rightarrow>
          (case firstErr of
             Some e \<Rightarrow> if length results = 0 then Inl e else Inr results
           | None \<Rightarrow> Inr results))"


section \<open>Random order\<close>

text \<open>
  \<^verbatim>\<open>rand.Shuffle(n, swap)\<close> runs \<^verbatim>\<open>for i := n-1; i > 0; i-- { j := Intn(i+1); swap(i, j) }\<close>.
  The random source is the function \<open>pick\<close>: \<open>pick i\<close> is the number drawn at step \<open>i\<close>,
  reduced into the range \<open>0..i\<close> that \<^verbatim>\<open>Intn(i+1)\<close> guarantees.
\<close>

definition swapAt :: "nat \<Rightarrow> nat \<Rightarrow> 'a list \<Rightarrow> 'a list" where
  "swapAt i j xs = xs[i := xs ! j, j := xs ! i]"

fun shuffleLoop :: "(nat \<Rightarrow> nat) \<Rightarrow> nat \<Rightarrow> 'a list \<Rightarrow> 'a list" where
  "shuffleLoop pick 0 xs = xs"
| "shuffleLoop pick (Suc i) xs =
     shuffleLoop pick i (swapAt (Suc i) (pick (Suc i) mod (Suc (Suc i))) xs)"

definition Shuffle :: "(nat \<Rightarrow> nat) \<Rightarrow> 'a list \<Rightarrow> 'a list" where
  "Shuffle pick xs = shuffleLoop pick (length xs - 1) xs"

section \<open>The Medium provider\<close>

text \<open>
  \<^verbatim>\<open>GetRecommendedArticles\<close> of \<^verbatim>\<open>MediumProvider\<close>. The two feeds are external: \<open>fetchPrimary\<close>
  and \<open>fetchProxy\<close> are what the calls return when they are made, and the function also
  returns the list of the feeds it called. \<^verbatim>\<open>dedup\<close> is a Go map, kept here as an
  association list in insertion order; ranging over a Go map visits the entries in an
  unspecified order, which is the permutation drawn by \<open>iter\<close>.
\<close>

datatype Feed = Primary | Proxy

fun dedupLoop ::
  "(string \<Rightarrow> string) \<Rightarrow> (string \<times> Article) list \<Rightarrow> Article list \<Rightarrow> (string \<times> Article) list" where
  "dedupLoop toLower dedup [] = dedup"
| "dedupLoop toLower dedup (article # rest) =
     (let key = toLower (strings_TrimSpace (Article.Link article))
      in if key = [] then dedupLoop toLower dedup rest
         else if key \<in> fst ` set dedup then dedupLoop toLower dedup rest
         else dedupLoop toLower (dedup @ [(key, article)]) rest)"

definition Medium_GetRecommendedArticles ::
  "(string \<Rightarrow> string) \<Rightarrow> (nat \<Rightarrow> nat) \<Rightarrow> (nat \<Rightarrow> nat)
     \<Rightarrow> error + Article list \<Rightarrow> error + Article list \<Rightarrow> int
     \<Rightarrow> Feed list \<times> (error + Article list)" where
  "Medium_GetRecommendedArticles toLower iter pick fetchPrimary fetchProxy count' =
     (if count' \<le> 0 then ([], Inr [])
      else
        (let (aggregated1, lastErr1) =
               (case fetchPrimary of
                  Inr items \<Rightarrow> ([] @ items, None)
                | Inl e \<Rightarrow> ([], Some e));
             (called, aggregated, lastErr) =
               (if int (length aggregated1) < count'
                then (case fetchProxy of
                        Inr items \<Rightarrow> ([Primary, Proxy], aggregated1 @ items, lastErr1)
                      | Inl e \<Rightarrow> ([Primary, Proxy], aggregated1, Some e))
                else ([Primary], aggregated1, lastErr1))
         in if length aggregated = 0
            then (called,
                  Inl (case lastErr of
                         Some e \<Rightarrow> e
                       | None \<Rightarrow> Error ''no medium articles available''))
            else
              (let dedup = dedupLoop toLower [] aggregated;
                   unique = Shuffle iter (map snd dedup)
               in if length unique = 0
                  then (called, Inl (Error ''medium feed returned no usable articles''))
                  else
                    (let shuffled = Shuffle pick unique;
                         count'' = (if count' > int (length shuffled)
                                    then int (length shuffled) else count')
                     in (called, Inr (take (nat count'') shuffled))))))"

section \<open>The LeetCode client\<close>

text \<open>
  One entry of \<^verbatim>\<open>stat_status_pairs\<close> in the decoded problemset, its nested structs
  flattened. \<open>upstream\<close> is the outcome of the HTTP request and of the decoding.
\<close>

record StatStatusPair =
  FrontendQuestionID :: int
  QuestionID :: int
  QuestionTitle :: string
  QuestionTitleSlug :: string
  Level :: int
  PaidOnly :: bool

definition difficultyToString :: "int \<Rightarrow> string" where
  "difficultyToString level =
     (if level = 1 then ''Easy''
      else if level = 2 then ''Medium''
      else if level = 3 then ''Hard''
      else ''Unknown'')"

definition resolveLink :: "string \<Rightarrow> string \<Rightarrow> string" where
  "resolveLink slug fallback =
     (if fallback \<noteq> [] then ''https://leetcode.com'' @ fallback
      else ''https://leetcode.com/problems/'' @ slug @ ''/'')"

definition toProblem :: "StatStatusPair \<Rightarrow> Problem" where
  "toProblem item =
     \<lparr>ID = QuestionID item,
      Problem.Title = QuestionTitle item,
      Slug = QuestionTitleSlug item,
      Difficulty = difficultyToString (Level item),
      Problem.Link = resolveLink (QuestionTitleSlug item) [],
      Content = [],
      Topics = []\<rparr>"

fun candidatesLoop :: "Problem list \<Rightarrow> StatStatusPair list \<Rightarrow> Problem list" where
  "candidatesLoop candidates [] = candidates"
| "candidatesLoop candidates (item # items) =
     (if PaidOnly item \<or> QuestionTitleSlug item = [] then candidatesLoop candidates items
      else candidatesLoop (candidates @ [toProblem item]) items)"

definition Client_GetRandomProblems ::
  "(nat \<Rightarrow> nat) \<Rightarrow> error + StatStatusPair list \<Rightarrow> int \<Rightarrow> error + Problem list" where
  "Client_GetRandomProblems pick upstream count' =
     (if count' \<le> 0 then Inr []
      else case upstream of
        Inl e \<Rightarrow> Inl e
      | Inr pairs \<Rightarrow>
          (let candidates = candidatesLoop [] pairs
           in if length candidates = 0 then Inl (Error ''no problems available'')
              else
                (let count'' = (if count' > int (length candidates)
                                then int (length candidates) else count')
                 in Inr (take (nat count'') (Shuffle pick candidates)))))"

section \<open>The insight composer\<close>

text \<open>
  \<^verbatim>\<open>Compose\<close> of \<^verbatim>\<open>GeminiWriter\<close>. The backend is external: \<open>generate m\<close> is what
  \<^verbatim>\<open>g.generate\<close> returns for the model \<open>m\<close>, the text, the HTTP status and the error.
  The prompt only travels to the backend, and \<^verbatim>\<open>json.Marshal\<close> of the fixed request
  shape does not fail. \<open>None\<close> is a panic.
\<close>

definition maxDiscordDescription :: int where
  "maxDiscordDescription = 2000"

fun tryModels ::
  "(string \<Rightarrow> string \<times> int \<times> error option) \<Rightarrow> error option \<Rightarrow> string list
     \<Rightarrow> (error + string) option" where
  "tryModels generate lastErr [] =
     (case lastErr of
        None \<Rightarrow> Some (Inl (Error ''gemini writer failed without detailed error''))
      | Some e \<Rightarrow> Some (Inl e))"
| "tryModels generate lastErr (modelName # rest) =
     (case generate modelName of
        (text', status, None) \<Rightarrow> map_option Inr (trimText text' maxDiscordDescription)
      | (text', status, Some e) \<Rightarrow>
          if status = 404 \<or> status = 429 then tryModels generate (Some e) rest
          else Some (Inl e))"

definition Compose ::
  "string \<Rightarrow> string \<Rightarrow> (string \<Rightarrow> string \<times> int \<times> error option) \<Rightarrow> (error + string) option" where
  "Compose apiKey model generate =
     (if apiKey = [] \<or> model = [] then Some (Inl (Error ''gemini writer not configured''))
      else tryModels generate None [model])"

section \<open>The Discord webhook\<close>

text \<open>
  \<^verbatim>\<open>Send\<close> of \<^verbatim>\<open>Webhook\<close>. It builds the embed, a Go map whose strings are cut by
  \<^verbatim>\<open>truncate\<close>, encodes it with \<^verbatim>\<open>json.Marshal\<close> and posts the encoded body. The constant
  parts of the embed (timestamp, colour, footer, author) are left out.

  \<^verbatim>\<open>json.Marshal\<close> is the encoder of the Go library and is taken as the parameter
  \<open>marshal\<close>. It does not keep the bytes of a string: it escapes characters, and it
  replaces every byte that is not valid UTF-8 by U+FFFD, three bytes. \<^verbatim>\<open>truncate\<close> cuts
  at a byte offset, possibly inside a rune, so a string of the embed that is within its
  limit can be longer in the posted body. \<open>post\<close> is the outcome of the HTTP exchange for
  a body.

  The result of \<open>Send\<close> is its error, the embeds handed to \<open>marshal\<close> and the bodies
  posted; \<open>None\<close> is a panic.
\<close>

record EmbedField =
  name :: string
  val :: string
  inline :: bool

record Embed =
  title :: string
  description :: string
  embedFields :: "EmbedField list"

record SendResult =
  sendErr :: "error option"
  marshalled :: "Embed list"
  posted :: "string list"

text \<open>The message of an error, for \<^verbatim>\<open>%w\<close> of \<^verbatim>\<open>fmt.Errorf\<close>.\<close>

fun errorText :: "error \<Rightarrow> string" where
  "errorText (Error m) = m"

definition truncate :: "string \<Rightarrow> int \<Rightarrow> string option" where
  "truncate v limit =
     (if int (length v) \<le> limit then Some v
      else case slice_to v (limit - 3) of
        None \<Rightarrow> None
      | Some pre \<Rightarrow> Some (strings_TrimSpace pre @ ''...''))"

fun convertLoop :: "EmbedField list \<Rightarrow> NotificationField list \<Rightarrow> EmbedField list option" where
  "convertLoop result [] = Some result"
| "convertLoop result (field # rest) =
     (case truncate (Name field) 256 of
        None \<Rightarrow> None
      | Some n \<Rightarrow>
          (case truncate (Value field) 1024 of
             None \<Rightarrow> None
           | Some v \<Rightarrow>
               convertLoop (result @ [\<lparr>name = n, val = v, inline = Inline field\<rparr>]) rest))"

definition convertFields :: "NotificationField list \<Rightarrow> EmbedField list option" where
  "convertFields fs = (if length fs = 0 then Some [] else convertLoop [] fs)"

definition Send ::
  "string \<Rightarrow> (Embed \<Rightarrow> error + string) \<Rightarrow> (string \<Rightarrow> error option) \<Rightarrow> Notification
     \<Rightarrow> SendResult option" where
  "Send webhookURL marshal post notification =
     (if webhookURL = []
      then Some \<lparr>sendErr = Some (Error ''webhook URL is empty''), marshalled = [], posted = []\<rparr>
      else case truncate (Notification.Title notification) 256 of
        None \<Rightarrow> None
      | Some t \<Rightarrow>
          (case truncate (Description notification) 4096 of
             None \<Rightarrow> None
           | Some d \<Rightarrow>
               (case convertFields (Fields notification) of
                  None \<Rightarrow> None
                | Some fs \<Rightarrow>
                    (let payload = \<lparr>title = t, description = d, embedFields = fs\<rparr>
                     in case marshal payload of
                          Inl e \<Rightarrow>
                            Some \<lparr>sendErr = Some (Error (''marshal payload: '' @ errorText e)),
                                  marshalled = [payload], posted = []\<rparr>
                        | Inr body \<Rightarrow>
                            Some \<lparr>sendErr = post body, marshalled = [payload],
                                  posted = [body]\<rparr>))))"


section \<open>Vocabulary of the statements\<close>

text \<open>
  The first error in a list of call outcomes, and the items of an outcome that have a
  canonical key (none for a failed call): the vocabulary of the statements about the
  composite provider.
\<close>

fun firstError :: "(error + 'a) list \<Rightarrow> error option" where
  "firstError [] = None"
| "firstError (Inl e # rs) = Some e"
| "firstError (Inr x # rs) = firstError rs"

definition usableItems :: "(string \<Rightarrow> string) \<Rightarrow> error + Article list \<Rightarrow> Article list" where
  "usableItems toLower outcome =
     (case outcome of
        Inl e \<Rightarrow> []
      | Inr items \<Rightarrow> filter (\<lambda>a. canonicalArticleKey toLower a \<noteq> []) items)"

text \<open>
  The vocabulary of the statements about the Medium provider: the key by which its loop
  deduplicates, the items of a fetch outcome (none for a failed fetch), the items merged
  from the feeds that were called, and the distinct non-empty keys of a list of articles.
\<close>

definition linkKey :: "(string \<Rightarrow> string) \<Rightarrow> Article \<Rightarrow> string" where
  "linkKey toLower a = toLower (strings_TrimSpace (Article.Link a))"

definition itemsOf :: "error + Article list \<Rightarrow> Article list" where
  "itemsOf outcome = (case outcome of Inl e \<Rightarrow> [] | Inr items \<Rightarrow> items)"

definition mergedItems :: "Feed list \<Rightarrow> error + Article list \<Rightarrow> error + Article list \<Rightarrow> Article list" where
  "mergedItems called fetchPrimary fetchProxy =
     itemsOf fetchPrimary @ (if Proxy \<in> set called then itemsOf fetchProxy else [])"

definition uniqueLinks :: "(string \<Rightarrow> string) \<Rightarrow> Article list \<Rightarrow> string list" where
  "uniqueLinks toLower xs = remdups (filter (\<lambda>k. k \<noteq> []) (map (linkKey toLower) xs))"

text \<open>
  A cut at a white-space boundary, in the words of the specification: \<open>out\<close> is the text up
  to some position at which a white-space rune starts, followed by the marker.
\<close>

definition cutAtWhitespace :: "string \<Rightarrow> string \<Rightarrow> bool" where
  "cutAtWhitespace text' out \<longleftrightarrow>
     list_ex (\<lambda>k. 0 < spaceWidth (drop k text') \<and> out = take k text' @ ''...'')
       [0 ..< length text']"

section \<open>Scenarios\<close>

text \<open>The concrete inputs on which the theorems are instantiated.\<close>

subsection \<open>Problems, digests and a notification\<close>

definition twoSum :: Problem where
  "twoSum = \<lparr>ID = 1, Problem.Title = ''Two Sum'', Slug = ''two-sum'', Difficulty = ''Easy'',
             Problem.Link = ''https://leetcode.com/problems/two-sum/'', Content = [], Topics = []\<rparr>"

definition threeSum :: Problem where
  "threeSum = \<lparr>ID = 15, Problem.Title = ''3Sum'', Slug = ''three-sum'', Difficulty = ''Medium'',
               Problem.Link = ''https://leetcode.com/problems/3sum/'', Content = [], Topics = []\<rparr>"

definition fourSum :: Problem where
  "fourSum = \<lparr>ID = 18, Problem.Title = ''4Sum'', Slug = ''four-sum'', Difficulty = ''Medium'',
              Problem.Link = ''https://leetcode.com/problems/4sum/'', Content = [], Topics = []\<rparr>"

definition digestWith :: "Problem option \<Rightarrow> Problem list \<Rightarrow> DailyDigest" where
  "digestWith daily ps =
     \<lparr>problems = \<lparr>GetDailyChallenge = Inr daily, GetRandomProblems = (\<lambda>n. Inr ps)\<rparr>,
      articles = None, writer = None, notifier = (\<lambda>n. None),
      randomCount = 2, articleCount = 2\<rparr>"

definition failingDigest :: DailyDigest where
  "failingDigest =
     \<lparr>problems = \<lparr>GetDailyChallenge = Inr (Some twoSum),
                  GetRandomProblems = (\<lambda>n. Inl (Error ''problemset down''))\<rparr>,
      articles = Some (\<lambda>n. Inl (Error ''feeds down'')),
      writer = Some (\<lambda>daily random as. Inl (Error ''backend down'')),
      notifier = (\<lambda>n. None),
      randomCount = 2, articleCount = 2\<rparr>"

definition abortedDigest :: DailyDigest where
  "abortedDigest =
     \<lparr>problems = \<lparr>GetDailyChallenge = Inl (Error ''daily challenge down''),
                  GetRandomProblems = (\<lambda>n. Inr [threeSum])\<rparr>,
      articles = None, writer = None, notifier = (\<lambda>n. None),
      randomCount = 2, articleCount = 2\<rparr>"

definition longTitle :: Problem where
  "longTitle = \<lparr>ID = 7, Problem.Title = replicate 1100 (CHR ''a''), Slug = ''long'',
                Difficulty = ''Hard'', Problem.Link = ''https://leetcode.com/problems/long/'',
                Content = [], Topics = []\<rparr>"

definition longNotification :: Notification where
  "longNotification =
     \<lparr>Notification.Title = ''Daily LeetCode & Algorithms Digest'',
      Description = ''Curated plan for algorithms practice today.'',
      Fields = [\<lparr>Name = ''Practice Queue'', Value = formatPracticeQueue [longTitle],
                 Inline = False\<rparr>]\<rparr>"

subsection \<open>Articles and chains of sources\<close>

text \<open>\<^verbatim>\<open>strings.ToLower\<close> on ASCII text, for the concrete inputs.\<close>

definition toLowerASCII :: "string \<Rightarrow> string" where
  "toLowerASCII s =
     map (\<lambda>c. if 65 \<le> (of_char c :: nat) \<and> (of_char c :: nat) \<le> 90
              then char_of ((of_char c :: nat) + 32) else c) s"

definition graphsArticle :: Article where
  "graphsArticle = \<lparr>Article.Title = ''Graphs'', Article.Link = ''https://medium.com/graphs'',
                    Source = ''Medium''\<rparr>"

definition graphsAgain :: Article where
  "graphsAgain = \<lparr>Article.Title = ''Graphs, again'', Article.Link = '' HTTPS://medium.com/Graphs '',
                  Source = ''Medium''\<rparr>"

definition triesArticle :: Article where
  "triesArticle = \<lparr>Article.Title = ''Tries'', Article.Link = [], Source = []\<rparr>"

definition heapsArticle :: Article where
  "heapsArticle = \<lparr>Article.Title = ''Heaps'', Article.Link = ''https://dev.to/heaps'',
                   Source = ''dev.to''\<rparr>"

definition sortsArticle :: Article where
  "sortsArticle = \<lparr>Article.Title = ''Sorts'', Article.Link = ''https://dev.to/sorts'',
                   Source = ''dev.to''\<rparr>"

definition threeProviders :: "ArticleProvider list" where
  "threeProviders =
     [(\<lambda>n. Inr [graphsArticle, graphsAgain, triesArticle]),
      (\<lambda>n. Inl (Error ''feed down'')),
      (\<lambda>n. Inr [triesArticle, heapsArticle, sortsArticle])]"



definition mediumA :: Article where
  "mediumA = \<lparr>Article.Title = ''A* search'', Article.Link = ''https://medium.com/@x/a-star'',
              Source = ''Medium''\<rparr>"

definition mediumA' :: Article where
  "mediumA' = \<lparr>Article.Title = ''A* search (proxy)'', Article.Link = ''https://medium.com/@x/A-Star'',
               Source = ''Medium''\<rparr>"

definition mediumB :: Article where
  "mediumB = \<lparr>Article.Title = ''B-trees'', Article.Link = ''https://medium.com/@y/b-trees'',
              Source = ''Medium''\<rparr>"

subsection \<open>An upstream problemset\<close>

definition paidPair :: StatStatusPair where
  "paidPair = \<lparr>FrontendQuestionID = 156, QuestionID = 156, QuestionTitle = ''Binary Tree Upside Down'',
               QuestionTitleSlug = ''binary-tree-upside-down'', Level = 2, PaidOnly = True\<rparr>"

definition unnamedPair :: StatStatusPair where
  "unnamedPair = \<lparr>FrontendQuestionID = 0, QuestionID = 0, QuestionTitle = ''Draft'',
                  QuestionTitleSlug = [], Level = 1, PaidOnly = False\<rparr>"

definition freePair :: StatStatusPair where
  "freePair = \<lparr>FrontendQuestionID = 1, QuestionID = 1, QuestionTitle = ''Two Sum'',
               QuestionTitleSlug = ''two-sum'', Level = 1, PaidOnly = False\<rparr>"

definition threeSumPair :: StatStatusPair where
  "threeSumPair = \<lparr>FrontendQuestionID = 15, QuestionID = 15, QuestionTitle = ''3Sum'',
                   QuestionTitleSlug = ''three-sum'', Level = 2, PaidOnly = False\<rparr>"

definition fourSumPair :: StatStatusPair where
  "fourSumPair = \<lparr>FrontendQuestionID = 18, QuestionID = 18, QuestionTitle = ''4Sum'',
                  QuestionTitleSlug = ''four-sum'', Level = 2, PaidOnly = False\<rparr>"

text \<open>
  A digest wired to the LeetCode client, as \<^verbatim>\<open>provideProblemProvider\<close> does: the
  problemset holds \<open>two-sum\<close>, \<open>three-sum\<close> and \<open>four-sum\<close>, the shuffle keeps their order,
  and three random problems are requested.
\<close>

definition clientDigest :: DailyDigest where
  "clientDigest =
     \<lparr>problems = \<lparr>GetDailyChallenge = Inr (Some twoSum),
                  GetRandomProblems =
                    Client_GetRandomProblems (\<lambda>i. i) (Inr [freePair, threeSumPair, fourSumPair])\<rparr>,
      articles = None, writer = None, notifier = (\<lambda>n. None),
      randomCount = 3, articleCount = 2\<rparr>"

subsection \<open>A long narrative\<close>

definition longNarrative :: string where
  "longNarrative = ''ab '' @ replicate 2000 (CHR ''x'')"

definition longNarrativeCut :: string where
  "longNarrativeCut = ''ab '' @ replicate 1994 (CHR ''x'') @ ''...''"

section \<open>Properties of the string functions\<close>

lemma length_trimLeftSpace: "length (trimLeftSpace s) \<le> length s"
proof (induction s rule: trimLeftSpace.induct)
  case (1 s)
  show ?case
  proof (cases "s = [] \<or> spaceWidth s = 0")
    case True
    then show ?thesis by (subst trimLeftSpace.simps) simp
  next
    case False
    with 1 have "length (trimLeftSpace (drop (spaceWidth s) s)) \<le> length (drop (spaceWidth s) s)"
      by simp
    with False show ?thesis by (subst trimLeftSpace.simps) simp
  qed
qed

lemma length_trimRightSpace: "length (trimRightSpace s) \<le> length s"
proof (induction s rule: trimRightSpace.induct)
  case (1 s)
  show ?case
  proof (cases "s = [] \<or> trailingSpaceWidth s = 0")
    case True
    then show ?thesis by (subst trimRightSpace.simps) simp
  next
    case False
    with 1 have "length (trimRightSpace (take (length s - trailingSpaceWidth s) s))
        \<le> length (take (length s - trailingSpaceWidth s) s)"
      by simp
    with False show ?thesis by (subst trimRightSpace.simps) simp
  qed
qed

lemma length_TrimSpace: "length (strings_TrimSpace s) \<le> length s"
  unfolding strings_TrimSpace_def
  using length_trimRightSpace [of "trimLeftSpace s"] length_trimLeftSpace [of s] by linarith

lemma find_SomeD: "find P xs = Some x \<Longrightarrow> x \<in> set xs \<and> P x"
  by (induction xs) (auto split: if_splits)

lemma LastIndex_le: "strings_LastIndex s sub \<le> int (length s)"
  by (auto simp: strings_LastIndex_def split: option.splits dest!: find_SomeD)

lemma cut_at_space:
  "\<exists>t'. (if strings_LastIndex t '' '' > 0 then slice_to t (strings_LastIndex t '' '') else Some t) = Some t'
        \<and> length t' \<le> length t"
  using LastIndex_le [of t "'' ''"] by (auto simp: slice_to_def)

lemma cut_tail:
  assumes "0 \<le> L" and "\<not> int (length s) \<le> L"
  shows "\<exists>t'. (case slice_to s L of
                 None \<Rightarrow> None
               | Some trimmed \<Rightarrow>
                   (let lastSpace = strings_LastIndex trimmed '' '' in
                    case (if lastSpace > 0 then slice_to trimmed lastSpace else Some trimmed) of
                      None \<Rightarrow> None
                    | Some trimmed' \<Rightarrow> Some (trimmed' @ ''...''))) = Some (t' @ ''...'')
              \<and> int (length t') \<le> L"
proof -
  from assms have sl: "slice_to s L = Some (take (nat L) s)" by (simp add: slice_to_def)
  obtain t' where t': "(if strings_LastIndex (take (nat L) s) '' '' > 0
        then slice_to (take (nat L) s) (strings_LastIndex (take (nat L) s) '' '')
        else Some (take (nat L) s)) = Some t'" and len: "length t' \<le> length (take (nat L) s)"
    using cut_at_space [of "take (nat L) s"] by blast
  from len assms have "int (length t') \<le> L" by simp
  with sl t' show ?thesis by (simp add: Let_def)
qed

lemma trimForDiscord_bound:
  assumes "0 \<le> L"
  shows "\<exists>r. trimForDiscord s L = Some r \<and> int (length r) \<le> L + 3"
proof (cases "int (length s) \<le> L")
  case True
  then show ?thesis by (simp add: trimForDiscord_def)
next
  case False
  from cut_tail [OF assms False] obtain t' where
    "trimForDiscord s L = Some (t' @ ''...'')" and "int (length t') \<le> L"
    using False unfolding trimForDiscord_def by auto
  then show ?thesis by simp
qed

lemma summarizeText_bound:
  assumes "0 \<le> L"
  shows "\<exists>r. summarizeText s L = Some r \<and> int (length r) \<le> L + 3"
proof -
  define clean where "clean = strings_Join (strings_Fields s) '' ''"
  show ?thesis
  proof (cases "clean = [] \<or> int (length clean) \<le> L")
    case True
    with assms show ?thesis by (auto simp: summarizeText_def Let_def clean_def)
  next
    case False
    then have nl: "\<not> int (length clean) \<le> L" by simp
    from cut_tail [OF assms nl] obtain t' where
      "summarizeText s L = Some (t' @ ''...'')" and "int (length t') \<le> L"
      using False unfolding summarizeText_def clean_def [symmetric] Let_def by auto
    then show ?thesis by simp
  qed
qed

lemma truncate_bound:
  assumes "3 \<le> L"
  shows "\<exists>r. truncate s L = Some r \<and> int (length r) \<le> L"
proof (cases "int (length s) \<le> L")
  case True
  then show ?thesis by (simp add: truncate_def)
next
  case False
  with assms have sl: "slice_to s (L - 3) = Some (take (nat (L - 3)) s)" by (simp add: slice_to_def)
  have "length (strings_TrimSpace (take (nat (L - 3)) s)) \<le> length (take (nat (L - 3)) s)"
    by (rule length_TrimSpace)
  with assms have "int (length (strings_TrimSpace (take (nat (L - 3)) s) @ ''...'')) \<le> L"
    by (simp, linarith)
  with False sl show ?thesis by (simp add: truncate_def)
qed

lemma trimText_bound:
  assumes "3 \<le> L"
  shows "\<exists>r. trimText s L = Some r \<and> int (length r) \<le> L"
proof (cases "int (length s) \<le> L")
  case True
  then show ?thesis by (simp add: trimText_def)
next
  case False
  with assms have sl: "slice_to s (L - 3) = Some (take (nat (L - 3)) s)" by (simp add: slice_to_def)
  have "length (strings_TrimSpace (take (nat (L - 3)) s)) \<le> length (take (nat (L - 3)) s)"
    by (rule length_TrimSpace)
  with assms have "int (length (strings_TrimSpace (take (nat (L - 3)) s) @ ''...'')) \<le> L"
    by (simp, linarith)
  with False sl show ?thesis by (simp add: trimText_def)
qed

section \<open>Collapsed white space is a fixed point\<close>

lemma spaceRunes_shape:
  "p \<in> set spaceRunes \<Longrightarrow> p \<noteq> [] \<and> \<not> isCont (hd p) \<and> (\<forall>c\<in>set (tl p). isCont c)"
  by (auto simp: spaceRunes_def isCont_def)

lemma spaceWidth_0_iff:
  "spaceWidth s = 0 \<longleftrightarrow> (\<forall>p\<in>set spaceRunes. take (length p) s \<noteq> p)"
proof (cases "find (\<lambda>p. take (length p) s = p) spaceRunes")
  case None
  then have "spaceWidth s = 0" by (simp add: spaceWidth_def)
  moreover from None have "\<forall>p\<in>set spaceRunes. take (length p) s \<noteq> p"
    by (auto simp: find_None_iff)
  ultimately show ?thesis by simp
next
  case (Some p)
  then have "p \<in> set spaceRunes" "take (length p) s = p" by (auto dest: find_SomeD)
  moreover from this spaceRunes_shape have "length p \<noteq> 0" by auto
  ultimately show ?thesis using Some by (auto simp: spaceWidth_def)
qed

lemma spaceWidth_context:
  assumes "u \<noteq> []" and "spaceWidth (u @ z) = 0" and "z' = [] \<or> \<not> isCont (hd z')"
  shows "spaceWidth (u @ z') = 0"
  unfolding spaceWidth_0_iff
proof
  fix p assume p: "p \<in> set spaceRunes"
  show "take (length p) (u @ z') \<noteq> p"
  proof
    assume m: "take (length p) (u @ z') = p"
    show False
    proof (cases "length p \<le> length u")
      case True
      with m have "take (length p) (u @ z) = p" by simp
      with p assms(2) show False by (simp add: spaceWidth_0_iff)
    next
      case False
      then have lt: "length u < length p" by simp
      from m have "length (take (length p) (u @ z')) = length p" by simp
      with lt have z': "z' \<noteq> []" by (cases z') auto
      from m lt have "p ! length u = (u @ z') ! length u"
        by (metis nth_take)
      with z' have "p ! length u = hd z'" by (simp add: nth_append hd_conv_nth)
      moreover have "p ! length u \<in> set (tl p)"
      proof -
        from assms(1) obtain n where n: "length u = Suc n" by (cases u) auto
        from lt obtain a rest where ar: "p = a # rest" by (cases p) auto
        from n lt ar have "n < length rest" by simp
        then have "rest ! n \<in> set rest" by (rule nth_mem)
        with n ar show ?thesis by simp
      qed
      ultimately show False using spaceRunes_shape [OF p] assms(3) z' by auto
    qed
  qed
qed

lemma blank_not_cont: "\<not> isCont (CHR '' '')"
  by (simp add: isCont_def)

lemma isWord_context:
  assumes "isWord w" and "i < length w" and "z = [] \<or> \<not> isCont (hd z)"
  shows "spaceWidth (drop i w @ z) = 0"
proof -
  from assms(1,2) have sw: "spaceWidth (drop i w @ '' '') = 0"
    by (auto simp: isWord_def list_all_iff)
  from assms(2) have ne: "drop i w \<noteq> []" by simp
  from ne sw assms(3) show ?thesis by (rule spaceWidth_context)
qed

lemma fieldsFrom_words:
  "(\<forall>i<length cur. spaceWidth (drop i cur @ s) = 0) \<Longrightarrow> \<forall>w\<in>set (fieldsFrom cur s). isWord w"
proof (induction cur s rule: fieldsFrom.induct)
  case (1 cur)
  show ?case
  proof (cases "cur = []")
    case True
    then show ?thesis by (simp add: flushField_def)
  next
    case False
    have "spaceWidth (drop i cur @ '' '') = 0" if "i < length cur" for i
    proof -
      from that 1 have sw: "spaceWidth (drop i cur @ []) = 0" by simp
      from that have ne: "drop i cur \<noteq> []" by simp
      from ne sw show ?thesis
        by (rule spaceWidth_context) (simp add: blank_not_cont)
    qed
    with False show ?thesis by (simp add: flushField_def isWord_def list_all_iff)
  qed
next
  case (2 cur c cs)
  show ?case
  proof (cases "spaceWidth (c # cs) = 0")
    case True
    have "\<forall>i<length (cur @ [c]). spaceWidth (drop i (cur @ [c]) @ cs) = 0"
    proof (intro allI impI)
      fix i assume "i < length (cur @ [c])"
      then consider "i < length cur" | "i = length cur" by fastforce
      then show "spaceWidth (drop i (cur @ [c]) @ cs) = 0"
      proof cases
        case 1
        with "2.prems" show ?thesis by simp
      next
        case 2
        with True show ?thesis by simp
      qed
    qed
    from "2.IH"(1) [OF True this] True show ?thesis by simp
  next
    case False
    have rest: "\<forall>w\<in>set (fieldsFrom [] (drop (spaceWidth (c # cs)) (c # cs))). isWord w"
      using "2.IH"(2) [OF False] by simp
    have cur: "isWord cur" if ne: "cur \<noteq> []"
    proof -
      have "spaceWidth (drop i cur @ '' '') = 0" if "i < length cur" for i
      proof -
        from that "2.prems" have sw: "spaceWidth (drop i cur @ c # cs) = 0" by simp
        from that have ne: "drop i cur \<noteq> []" by simp
        from ne sw show ?thesis
          by (rule spaceWidth_context) (simp add: blank_not_cont)
      qed
      with ne show ?thesis by (simp add: isWord_def list_all_iff)
    qed
    from rest cur False show ?thesis by (auto simp: flushField_def)
  qed
qed

lemma fieldsFrom_skip:
  "(\<forall>i<length u. spaceWidth (drop i u @ z) = 0) \<Longrightarrow> fieldsFrom cur (u @ z) = fieldsFrom (cur @ u) z"
proof (induction u arbitrary: cur)
  case Nil
  then show ?case by simp
next
  case (Cons x xs)
  from Cons.prems have h: "spaceWidth (x # xs @ z) = 0" by force
  have "\<forall>i<length xs. spaceWidth (drop i xs @ z) = 0"
  proof (intro allI impI)
    fix i assume "i < length xs"
    then have "Suc i < length (x # xs)" by simp
    with Cons.prems have "spaceWidth (drop (Suc i) (x # xs) @ z) = 0" by blast
    then show "spaceWidth (drop i xs @ z) = 0" by simp
  qed
  from Cons.IH [OF this, of "cur @ [x]"] h show ?case by simp
qed

lemma spaceWidth_blank: "spaceWidth (CHR '' '' # rest) = 1"
  by (simp add: spaceWidth_def spaceRunes_def)

lemma fieldsFrom_Join:
  "\<forall>w\<in>set ws. isWord w \<Longrightarrow> fieldsFrom [] (strings_Join ws '' '') = ws"
proof (induction ws "'' ''" rule: strings_Join.induct)
  case 1
  then show ?case by (simp add: flushField_def)
next
  case (2 w)
  then have w: "isWord w" by simp
  then have "\<forall>i<length w. spaceWidth (drop i w @ []) = 0"
    using isWord_context [of w _ "[]"] by simp
  from fieldsFrom_skip [OF this, of "[]"] w show ?case
    by (simp add: flushField_def isWord_def)
next
  case (3 w w' ws)
  then have w: "isWord w" by simp
  let ?rest = "strings_Join (w' # ws) '' ''"
  from w have "\<forall>i<length w. spaceWidth (drop i w @ '' '' @ ?rest) = 0"
    using isWord_context [of w _ "'' '' @ ?rest"] by (simp add: blank_not_cont)
  from fieldsFrom_skip [OF this, of "[]"]
  have "fieldsFrom [] (w @ '' '' @ ?rest) = fieldsFrom w ('' '' @ ?rest)" by simp
  also have "\<dots> = flushField w @ fieldsFrom [] ?rest"
    by (simp add: spaceWidth_blank)
  also have "\<dots> = w # w' # ws"
    using 3 w by (simp add: flushField_def isWord_def)
  finally show ?case by simp
qed

lemma Fields_words: "\<forall>w\<in>set (strings_Fields s). isWord w"
  unfolding strings_Fields_def by (rule fieldsFrom_words) simp

lemma Fields_Join_Fields:
  "strings_Fields (strings_Join (strings_Fields s) '' '') = strings_Fields s"
  using fieldsFrom_Join [OF Fields_words [of s]] by (simp add: strings_Fields_def)

lemma summarizeText_fixed_point:
  assumes "int (length (strings_Join (strings_Fields s) '' '')) \<le> L"
  shows "summarizeText s L = Some (strings_Join (strings_Fields s) '' '')"
    and "summarizeText (strings_Join (strings_Fields s) '' '') L
           = Some (strings_Join (strings_Fields s) '' '')"
  using assms by (auto simp: summarizeText_def Let_def Fields_Join_Fields)

lemma words_collapsed:
  "\<forall>w\<in>set ws. isWord w \<Longrightarrow>
     strings_Join (strings_Fields (strings_Join ws '' '')) '' '' = strings_Join ws '' ''"
  by (simp add: strings_Fields_def fieldsFrom_Join)

section \<open>Truncation is bounded\<close>

text \<open>
  Claim C3, as the code has it. A string within the limit is returned unchanged by
  \<open>trimForDiscord\<close>, \<open>truncate\<close> and \<open>trimText\<close>, and by \<open>summarizeText\<close> when its white
  space is already collapsed to single blanks between words; \<open>summarizeText\<close> returns
  any other text with its white space collapsed, when that is within the limit, and the
  collapsed text is one that it returns unchanged. For a limit of at least 3 the results
  of \<open>truncate\<close> and \<open>trimText\<close> are within the limit. \<open>trimForDiscord\<close> and
  \<open>summarizeText\<close> cut at the limit and then append the three bytes of the marker, so
  for a limit of at least 0 their results are within the limit plus 3. None of the four
  panics on these limits.
\<close>

theorem truncation_unchanged_and_bounded:
  "(int (length s) \<le> L \<longrightarrow>
      trimForDiscord s L = Some s \<and> truncate s L = Some s \<and> trimText s L = Some s)
   \<and> (int (length s) \<le> L \<and> strings_Join (strings_Fields s) '' '' = s \<longrightarrow>
      summarizeText s L = Some s)
   \<and> (int (length (strings_Join (strings_Fields s) '' '')) \<le> L \<longrightarrow>
      summarizeText s L = Some (strings_Join (strings_Fields s) '' '')
      \<and> summarizeText (strings_Join (strings_Fields s) '' '') L
            = Some (strings_Join (strings_Fields s) '' ''))
   \<and> (3 \<le> L \<longrightarrow>
      (\<exists>r. truncate s L = Some r \<and> int (length r) \<le> L)
      \<and> (\<exists>r. trimText s L = Some r \<and> int (length r) \<le> L))
   \<and> (0 \<le> L \<longrightarrow>
      (\<exists>r. trimForDiscord s L = Some r \<and> int (length r) \<le> L + 3)
      \<and> (\<exists>r. summarizeText s L = Some r \<and> int (length r) \<le> L + 3))"
proof -
  have a: "int (length s) \<le> L \<longrightarrow>
      trimForDiscord s L = Some s \<and> truncate s L = Some s \<and> trimText s L = Some s"
    by (simp add: trimForDiscord_def truncate_def trimText_def)
  have b: "int (length s) \<le> L \<and> strings_Join (strings_Fields s) '' '' = s \<longrightarrow>
      summarizeText s L = Some s"
    by (simp add: summarizeText_def Let_def)
  have c: "int (length (strings_Join (strings_Fields s) '' '')) \<le> L \<longrightarrow>
      summarizeText s L = Some (strings_Join (strings_Fields s) '' '')
      \<and> summarizeText (strings_Join (strings_Fields s) '' '') L
            = Some (strings_Join (strings_Fields s) '' '')"
    using summarizeText_fixed_point [of s L] by blast
  from a b c truncate_bound [of L s] trimText_bound [of L s]
    trimForDiscord_bound [of L s] summarizeText_bound [of L s]
  show ?thesis by blast
qed

text \<open>The theorem at the string \<open>to do\<close> and the limit 5.\<close>

theorem truncation_witness:
  "trimForDiscord ''to do'' 5 = Some ''to do'' \<and> truncate ''to do'' 5 = Some ''to do''
   \<and> trimText ''to do'' 5 = Some ''to do'' \<and> summarizeText ''to do'' 5 = Some ''to do''
   \<and> (\<exists>r. truncate ''to do'' 5 = Some r \<and> int (length r) \<le> 5)
   \<and> (\<exists>r. trimText ''to do'' 5 = Some r \<and> int (length r) \<le> 5)
   \<and> (\<exists>r. trimForDiscord ''to do'' 5 = Some r \<and> int (length r) \<le> 5 + 3)
   \<and> (\<exists>r. summarizeText ''to do'' 5 = Some r \<and> int (length r) \<le> 5 + 3)"
proof -
  have h1: "int (length ''to do'') \<le> 5" by simp
  have h2: "strings_Join (strings_Fields ''to do'') '' '' = ''to do''" by code_simp
  have h3: "(3::int) \<le> 5" "(0::int) \<le> 5" by simp_all
  from h1 h2 have h4: "int (length (strings_Join (strings_Fields ''to do'') '' '')) \<le> 5"
    by simp
  from truncation_unchanged_and_bounded [of "''to do''" 5] h1 h2 h3 h4
  show ?thesis by blast
qed

text \<open>
  The claim as written fails twice: \<open>trimForDiscord\<close> at limit 3 returns six bytes, and
  \<open>summarizeText\<close> changes a string that is within its limit.
\<close>

theorem truncation_counterexample:
  "trimForDiscord ''aaaaa'' 3 = Some ''aaa...'' \<and> \<not> int (length ''aaa...'') \<le> 3
   \<and> int (length ''a  b'') \<le> 420 \<and> summarizeText ''a  b'' 420 = Some ''a b'' \<and> ''a b'' \<noteq> ''a  b''"
  by code_simp

section \<open>Supplementary problems\<close>

lemma uniqueLoop_inv:
  "distinct (map Slug unique) \<Longrightarrow> Slug ` set unique \<subseteq> seen \<Longrightarrow> X \<subseteq> seen
   \<Longrightarrow> X \<inter> Slug ` set unique = {}
   \<Longrightarrow> distinct (map Slug (uniqueLoop seen unique ps))
       \<and> X \<inter> Slug ` set (uniqueLoop seen unique ps) = {}"
proof (induction ps arbitrary: seen unique)
  case Nil
  then show ?case by simp
next
  case (Cons p ps)
  show ?case
  proof (cases "Slug p \<in> seen")
    case True
    with Cons show ?thesis by simp
  next
    case False
    have "distinct (map Slug (unique @ [p]))" using Cons.prems False by auto
    moreover have "Slug ` set (unique @ [p]) \<subseteq> insert (Slug p) seen" using Cons.prems by auto
    moreover have "X \<subseteq> insert (Slug p) seen" using Cons.prems by auto
    moreover have "X \<inter> Slug ` set (unique @ [p]) = {}" using Cons.prems False by auto
    ultimately have "distinct (map Slug (uniqueLoop (insert (Slug p) seen) (unique @ [p]) ps))
       \<and> X \<inter> Slug ` set (uniqueLoop (insert (Slug p) seen) (unique @ [p]) ps) = {}"
      by (rule Cons.IH)
    with False show ?thesis by simp
  qed
qed

lemma uniqueLoop_subset:
  "set (uniqueLoop seen unique ps) \<subseteq> set unique \<union> set ps"
proof (induction ps arbitrary: seen unique)
  case Nil
  then show ?case by simp
next
  case (Cons p ps)
  show ?case
  proof (cases "Slug p \<in> seen")
    case True
    with Cons.IH [of seen unique] show ?thesis by auto
  next
    case False
    with Cons.IH [of "insert (Slug p) seen" "unique @ [p]"] show ?thesis by auto
  qed
qed

text \<open>
  What \<open>fetchRandomProblems\<close> does with any provider: the slugs of its result are
  pairwise distinct, a featured slug that is not empty is absent from it, and its problems
  are among those the provider returned. The empty string is how the function writes
  that there is no featured slug.
\<close>

lemma fetchRandomProblems_unique:
  "distinct (map Slug (fetchRandomProblems d daily))
   \<and> (\<forall>p. daily = Some p \<and> Slug p \<noteq> [] \<longrightarrow> Slug p \<notin> Slug ` set (fetchRandomProblems d daily))"
proof -
  have "distinct (map Slug (uniqueLoop seen [] ps)) \<and> seen \<inter> Slug ` set (uniqueLoop seen [] ps) = {}"
    for seen ps
    by (rule uniqueLoop_inv) simp_all
  then show ?thesis
    by (auto simp: fetchRandomProblems_def Let_def split: sum.splits option.splits)
qed

lemma fetchRandomProblems_subset:
  assumes "q \<in> set (fetchRandomProblems d daily)"
  shows "\<exists>ps. GetRandomProblems (problems d) (randomCount d) = Inr ps \<and> q \<in> set ps"
proof -
  have "set (uniqueLoop seen [] ps) \<subseteq> set ps" for seen ps
    using uniqueLoop_subset [of seen "[]" ps] by simp
  with assms show ?thesis
    by (auto simp: fetchRandomProblems_def Let_def split: sum.splits option.splits if_splits)
qed

text \<open>
  The scenario of the specification with a stub provider: two problems are requested, the
  provider returns \<open>two-sum\<close>, \<open>three-sum\<close>, \<open>four-sum\<close>, and the featured problem is
  \<open>two-sum\<close>.
\<close>

lemma supplementary_stub_scenario:
  "fetchRandomProblems (digestWith (Some twoSum) [twoSum, threeSum, fourSum]) (Some twoSum)
     = [threeSum, fourSum]"
  by (simp add: fetchRandomProblems_def digestWith_def twoSum_def threeSum_def fourSum_def)

section \<open>The assembler is total\<close>

lemma formatProblemDetail_total: "\<exists>v. formatProblemDetail p = Some v"
proof -
  obtain r where "summarizeText (Content p) 420 = Some r"
    using summarizeText_bound [of 420 "Content p"] by auto
  then show ?thesis by (simp add: formatProblemDetail_def Let_def)
qed

lemma fallbackDescription_nonempty: "fallbackDescription daily \<noteq> []"
  by (simp add: fallbackDescription_def Let_def split: option.splits)

lemma buildNotification_total:
  "\<exists>fs. buildNotification daily random as insight =
           Some \<lparr>Notification.Title = ''Daily LeetCode & Algorithms Digest'',
                 Description = (if insight \<noteq> [] then insight else fallbackDescription daily),
                 Fields = fs\<rparr>
        \<and> (\<forall>f\<in>set fs. length (Name f) \<le> 22)"
proof (cases daily)
  case None
  then show ?thesis by (simp add: buildNotification_def Let_def)
next
  case (Some p)
  obtain v where "formatProblemDetail p = Some v" using formatProblemDetail_total by blast
  with Some show ?thesis by (simp add: buildNotification_def Let_def)
qed

text \<open>
  Claim C7. For every featured problem (present or not), every list of supplementary
  problems, every list of articles and every narrative, \<open>buildNotification\<close> returns a
  notification, without a panic, and its title and description are not empty.
\<close>

theorem assembler_total:
  "\<exists>n. buildNotification daily random as insight = Some n
       \<and> Notification.Title n \<noteq> [] \<and> Description n \<noteq> []"
proof -
  obtain fs where "buildNotification daily random as insight =
           Some \<lparr>Notification.Title = ''Daily LeetCode & Algorithms Digest'',
                 Description = (if insight \<noteq> [] then insight else fallbackDescription daily),
                 Fields = fs\<rparr>"
    using buildNotification_total by blast
  then show ?thesis by (simp add: fallbackDescription_nonempty)
qed

text \<open>The empty digest run: the notification it yields.\<close>

theorem assembler_empty_run:
  "buildNotification None [] [] [] =
     Some \<lparr>Notification.Title = ''Daily LeetCode & Algorithms Digest'',
           Description = ''Curated plan for algorithms practice today.'',
           Fields = []\<rparr>"
  using assembler_total [of None "[]" "[]" "[]"]
  by (simp add: buildNotification_def fallbackDescription_def)

section \<open>The run aborts only on the featured problem\<close>

lemma composeInsight_total:
  "\<exists>insight. composeInsight d daily random as = Some insight \<and> length insight \<le> 1903"
proof -
  have "\<exists>r. trimForDiscord t 1900 = Some r \<and> int (length r) \<le> 1900 + 3" for t
    by (rule trimForDiscord_bound) simp
  then have "\<exists>r. trimForDiscord t 1900 = Some r \<and> length r \<le> 1903" for t
    by (simp, linarith?)
  then show ?thesis
    by (auto simp: composeInsight_def split: option.splits sum.splits)
qed

text \<open>
  Claim C9. When the fetch of the daily challenge fails, \<open>Run\<close> returns that error and
  hands nothing to the notifier. When it succeeds, whatever the provider of random
  problems, the article provider and the writer return (failures included), \<open>Run\<close>
  builds one notification and hands it to the notifier; the error of \<open>Run\<close> is then the
  notifier's.
\<close>

theorem run_aborts_only_on_featured:
  "(GetDailyChallenge (problems d) = Inl e \<longrightarrow> Run d = Some \<lparr>err = Some e, sent = []\<rparr>)
   \<and> (GetDailyChallenge (problems d) = Inr daily \<longrightarrow>
        (\<exists>insight n.
           composeInsight d daily (fetchRandomProblems d daily) (fetchArticles d) = Some insight
           \<and> buildNotification daily (fetchRandomProblems d daily) (fetchArticles d) insight = Some n
           \<and> Run d = Some \<lparr>err = notifier d n, sent = [n]\<rparr>))"
proof -
  obtain insight where i: "composeInsight d daily (fetchRandomProblems d daily) (fetchArticles d) = Some insight"
    using composeInsight_total by blast
  obtain n where n: "buildNotification daily (fetchRandomProblems d daily) (fetchArticles d) insight = Some n"
    using buildNotification_total by blast
  from i n show ?thesis by (simp add: Run_def Let_def)
qed

text \<open>
  Two runs: one whose daily fetch fails, and one in which the three optional steps all
  fail.
\<close>

theorem run_aborts_only_on_featured_witness:
  "Run abortedDigest = Some \<lparr>err = Some (Error ''daily challenge down''), sent = []\<rparr>
   \<and> (\<exists>n. buildNotification (Some twoSum) [] [] [] = Some n
          \<and> Run failingDigest = Some \<lparr>err = None, sent = [n]\<rparr>)"
proof -
  have h1: "GetDailyChallenge (problems abortedDigest) = Inl (Error ''daily challenge down'')"
    by (simp add: abortedDigest_def)
  have h2: "GetDailyChallenge (problems failingDigest) = Inr (Some twoSum)"
    by (simp add: failingDigest_def)
  have h3: "fetchRandomProblems failingDigest (Some twoSum) = []"
    by (simp add: fetchRandomProblems_def failingDigest_def)
  have h4: "fetchArticles failingDigest = []"
    by (simp add: fetchArticles_def failingDigest_def)
  have h5: "composeInsight failingDigest (Some twoSum) [] [] = Some []"
    by (simp add: composeInsight_def failingDigest_def)
  have h6: "notifier failingDigest = (\<lambda>n. None)"
    by (simp add: failingDigest_def)
  from run_aborts_only_on_featured [of abortedDigest "Error ''daily challenge down''" None] h1
  have a: "Run abortedDigest = Some \<lparr>err = Some (Error ''daily challenge down''), sent = []\<rparr>"
    by simp
  from run_aborts_only_on_featured [of failingDigest "Error []" "Some twoSum"] h2 h3 h4 h5 h6
  have b: "\<exists>n. buildNotification (Some twoSum) [] [] [] = Some n
          \<and> Run failingDigest = Some \<lparr>err = None, sent = [n]\<rparr>"
    by auto
  from a b show ?thesis by simp
qed

section \<open>Size limits of the notification\<close>

lemma truncate_total:
  "3 \<le> L \<Longrightarrow> \<exists>r. truncate s L = Some r \<and> length r \<le> nat L"
  using truncate_bound [of L s] by auto

lemma convertLoop_bounded:
  "\<forall>f\<in>set acc. length (name f) \<le> 256 \<and> length (val f) \<le> 1024 \<Longrightarrow>
   \<exists>r. convertLoop acc fs = Some r \<and> (\<forall>f\<in>set r. length (name f) \<le> 256 \<and> length (val f) \<le> 1024)"
proof (induction fs arbitrary: acc)
  case Nil
  then show ?case by simp
next
  case (Cons field rest)
  obtain n where n: "truncate (Name field) 256 = Some n" "length n \<le> 256"
    using truncate_total [of 256 "Name field"] by auto
  obtain v where v: "truncate (Value field) 1024 = Some v" "length v \<le> 1024"
    using truncate_total [of 1024 "Value field"] by auto
  have "\<forall>f\<in>set (acc @ [\<lparr>name = n, val = v, inline = Inline field\<rparr>]).
          length (name f) \<le> 256 \<and> length (val f) \<le> 1024"
    using Cons.prems n v by auto
  from Cons.IH [OF this] n v show ?case by simp
qed

lemma convertFields_bounded:
  "\<exists>r. convertFields fs = Some r \<and> (\<forall>f\<in>set r. length (name f) \<le> 256 \<and> length (val f) \<le> 1024)"
  using convertLoop_bounded [of "[]" fs] by (auto simp: convertFields_def)

lemma Send_bounded:
  "\<exists>res. Send url marshal post n = Some res
      \<and> (\<forall>e\<in>set (marshalled res). length (title e) \<le> 256 \<and> length (description e) \<le> 4096
            \<and> (\<forall>f\<in>set (embedFields e). length (name f) \<le> 256 \<and> length (val f) \<le> 1024))
      \<and> (\<forall>body\<in>set (posted res). \<exists>e\<in>set (marshalled res). marshal e = Inr body)"
proof -
  obtain t where t: "truncate (Notification.Title n) 256 = Some t" "length t \<le> 256"
    using truncate_total [of 256 "Notification.Title n"] by auto
  obtain d where d: "truncate (Description n) 4096 = Some d" "length d \<le> 4096"
    using truncate_total [of 4096 "Description n"] by auto
  obtain fs where fs: "convertFields (Fields n) = Some fs"
      "\<forall>f\<in>set fs. length (name f) \<le> 256 \<and> length (val f) \<le> 1024"
    using convertFields_bounded by blast
  from t d fs show ?thesis
    by (cases "marshal \<lparr>title = t, description = d, embedFields = fs\<rparr>")
       (simp_all add: Send_def Let_def)
qed

text \<open>
  The cut of \<open>truncate\<close> can fall inside a rune: of 150 letters of two bytes each, cut at
  253 bytes, the last byte kept is the lead byte of the 127th letter. This is where
  \<^verbatim>\<open>json.Marshal\<close> writes U+FFFD.
\<close>

lemma truncate_cuts_inside_rune:
  "truncate (concat (replicate 150 [CHR 0xC3, CHR 0xA9])) 256
     = Some (concat (replicate 126 [CHR 0xC3, CHR 0xA9]) @ [CHR 0xC3] @ ''...'')"
  by code_simp

text \<open>
  Claim C1, as the code has it. The assembler bounds only part of the notification: the
  title and the field names are constants within 256 bytes, and a description taken from
  the narrative is the narrative, which \<open>composeInsight\<close> has cut to at most 1903 bytes.
  It caps neither the field values nor the fallback description. The notifier truncates:
  \<open>Send\<close> never panics, and in the embed that it hands to \<^verbatim>\<open>json.Marshal\<close> the title is
  within 256 bytes, the description within 4096, every field name within 256 and every
  field value within 1024; a body it posts is the encoding of such an embed. The bounds
  are on the strings of the embed, before the encoding.
\<close>

theorem notification_limits:
  "(buildNotification daily random as insight = Some n \<longrightarrow>
      length (Notification.Title n) \<le> 256 \<and> (\<forall>f\<in>set (Fields n). length (Name f) \<le> 256)
      \<and> (insight \<noteq> [] \<longrightarrow> Description n = insight))
   \<and> (composeInsight d daily random as = Some insight \<longrightarrow> length insight \<le> 1903)
   \<and> (\<exists>res. Send url marshal post n = Some res
         \<and> (\<forall>e\<in>set (marshalled res).
               length (title e) \<le> 256 \<and> length (description e) \<le> 4096
               \<and> (\<forall>f\<in>set (embedFields e). length (name f) \<le> 256 \<and> length (val f) \<le> 1024))
         \<and> (\<forall>body\<in>set (posted res). \<exists>e\<in>set (marshalled res). marshal e = Inr body))"
proof -
  have a: "buildNotification daily random as insight = Some n \<longrightarrow>
      length (Notification.Title n) \<le> 256 \<and> (\<forall>f\<in>set (Fields n). length (Name f) \<le> 256)
      \<and> (insight \<noteq> [] \<longrightarrow> Description n = insight)"
    using buildNotification_total [of daily random as insight] by fastforce
  have b: "composeInsight d daily random as = Some insight \<longrightarrow> length insight \<le> 1903"
    using composeInsight_total [of d daily random as] by auto
  from a b Send_bounded [of url marshal post n] show ?thesis by blast
qed

lemma itoa_1: "itoa (Suc 0) = ''1''"
  by code_simp

lemma long_value: "formatPracticeQueue [longTitle] =
   ''**1. ['' @ replicate 1100 (CHR ''a'') @ ''](https://leetcode.com/problems/long/)**\<newline>   Difficulty: *Hard*''"
  by (simp add: formatPracticeQueue_def practiceLine_def enumerate_eq_zip longTitle_def itoa_1)

text \<open>
  The claim as written fails on one supplementary problem with a title of 1100 bytes: the
  value of the field \<open>Practice Queue\<close> handed to the notifier is longer than 1024 bytes.
\<close>

theorem notification_limits_counterexample:
  "buildNotification None [longTitle] [] [] = Some longNotification
   \<and> Value (hd (Fields longNotification)) = formatPracticeQueue [longTitle]
   \<and> 1024 < length (formatPracticeQueue [longTitle])"
  by (simp add: long_value buildNotification_def longNotification_def fallbackDescription_def)

lemma convertLoop_length:
  "convertLoop acc fs = Some r \<Longrightarrow> length r = length acc + length fs"
proof (induction fs arbitrary: acc)
  case Nil
  then show ?case by simp
next
  case (Cons field rest)
  then show ?case by (auto split: option.splits)
qed

lemma Send_marshalled:
  assumes "url \<noteq> []" and "Send url marshal post n = Some res"
  shows "\<exists>e. marshalled res = [e] \<and> length (embedFields e) = length (Fields n)"
proof -
  from assms obtain t d fs where
    fs: "convertFields (Fields n) = Some fs" and
    res: "marshalled res = [\<lparr>title = t, description = d, embedFields = fs\<rparr>]"
    by (auto simp: Send_def Let_def split: option.splits sum.splits)
  from fs have "length fs = length (Fields n)"
    using convertLoop_length [of "[]" "Fields n" fs]
    by (auto simp: convertFields_def split: if_splits)
  with res show ?thesis by simp
qed

text \<open>The theorem at that notification.\<close>

theorem notification_limits_witness:
  "length (Notification.Title longNotification) \<le> 256
   \<and> length (Name (hd (Fields longNotification))) \<le> 256
   \<and> (\<exists>res e f. Send ''https://discord.test/hook'' (\<lambda>e. Inr ''{}'') (\<lambda>body. None) longNotification
                  = Some res
         \<and> marshalled res = [e] \<and> embedFields e = [f]
         \<and> length (title e) \<le> 256 \<and> length (description e) \<le> 4096
         \<and> length (name f) \<le> 256 \<and> length (val f) \<le> 1024)"
proof -
  have h1: "buildNotification None [longTitle] [] [] = Some longNotification"
    by (simp add: long_value buildNotification_def longNotification_def fallbackDescription_def)
  have h2: "composeInsight (digestWith None []) None [longTitle] [] = Some []"
    by (simp add: composeInsight_def digestWith_def)
  have h3: "Fields longNotification =
              [\<lparr>Name = ''Practice Queue'', Value = formatPracticeQueue [longTitle], Inline = False\<rparr>]"
    by (simp add: longNotification_def)
  from notification_limits [of None "[longTitle]" "[]" "[]" longNotification
         "digestWith None []" "''https://discord.test/hook''" "\<lambda>e. Inr ''{}''" "\<lambda>body. None"]
       h1 h2
  obtain res where
    a: "length (Notification.Title longNotification) \<le> 256"
       "\<forall>f\<in>set (Fields longNotification). length (Name f) \<le> 256" and
    res: "Send ''https://discord.test/hook'' (\<lambda>e. Inr ''{}'') (\<lambda>body. None) longNotification
            = Some res" and
    b: "\<forall>e\<in>set (marshalled res). length (title e) \<le> 256 \<and> length (description e) \<le> 4096
          \<and> (\<forall>f\<in>set (embedFields e). length (name f) \<le> 256 \<and> length (val f) \<le> 1024)"
    by blast
  from Send_marshalled [OF _ res] obtain e where
    e: "marshalled res = [e]" "length (embedFields e) = length (Fields longNotification)"
    by auto
  from e h3 obtain f where f: "embedFields e = [f]"
    by (cases "embedFields e") auto
  from a h3 have "length (Name (hd (Fields longNotification))) \<le> 256" by simp
  moreover from b e f have "length (title e) \<le> 256 \<and> length (description e) \<le> 4096
      \<and> length (name f) \<le> 256 \<and> length (val f) \<le> 1024"
    by simp
  ultimately show ?thesis using a(1) res e(1) f by blast
qed

section \<open>The composite article provider\<close>

lemma collectItems_inv:
  "distinct (map (canonicalArticleKey toLower) r)
   \<Longrightarrow> canonicalArticleKey toLower ` set r \<subseteq> s
   \<Longrightarrow> int (length r) < c
   \<Longrightarrow> collectItems toLower c (r, s) items = (r', s')
   \<Longrightarrow> distinct (map (canonicalArticleKey toLower) r')
       \<and> canonicalArticleKey toLower ` set r' \<subseteq> s'
       \<and> int (length r') \<le> c \<and> length r \<le> length r'"
proof (induction items arbitrary: r s)
  case Nil
  then show ?case by auto
next
  case (Cons item items)
  let ?k = "canonicalArticleKey toLower item"
  show ?case
  proof (cases "?k = [] \<or> ?k \<in> s")
    case True
    with Cons.prems(4) have "collectItems toLower c (r, s) items = (r', s')"
      by (auto simp: Let_def split: if_splits)
    from Cons.IH [OF Cons.prems(1-3) this] show ?thesis .
  next
    case False
    have d: "distinct (map (canonicalArticleKey toLower) (r @ [item]))"
      using Cons.prems(1,2) False by auto
    have sub: "canonicalArticleKey toLower ` set (r @ [item]) \<subseteq> insert ?k s"
      using Cons.prems(2) by auto
    show ?thesis
    proof (cases "int (length (r @ [item])) \<ge> c")
      case True
      with False Cons.prems(4) have "r' = r @ [item]" "s' = insert ?k s"
        by (auto simp: Let_def split: if_splits)
      with d sub Cons.prems(3) show ?thesis by auto
    next
      case ge: False
      with False Cons.prems(4)
      have "collectItems toLower c (r @ [item], insert ?k s) items = (r', s')"
        by (auto simp: Let_def split: if_splits)
      from Cons.IH [OF d sub _ this] ge show ?thesis by auto
    qed
  qed
qed

lemma queryProviders_inv:
  "distinct (map (canonicalArticleKey toLower) r)
   \<Longrightarrow> canonicalArticleKey toLower ` set r \<subseteq> s
   \<Longrightarrow> int (length r) \<le> c
   \<Longrightarrow> queryProviders toLower c (r, s, fe) ps = (r', s', fe')
   \<Longrightarrow> distinct (map (canonicalArticleKey toLower) r')
       \<and> int (length r') \<le> c \<and> length r \<le> length r'"
proof (induction ps arbitrary: r s fe)
  case Nil
  then show ?case by auto
next
  case (Cons p ps)
  show ?case
  proof (cases "int (length r) \<ge> c")
    case True
    with Cons.prems show ?thesis by auto
  next
    case False
    then have lt: "int (length r) < c" by simp
    show ?thesis
    proof (cases "p (c - int (length r))")
      case (Inl e)
      with False Cons.prems(4)
      have "queryProviders toLower c (r, s, (if fe = None then Some e else fe)) ps = (r', s', fe')"
        by simp
      from Cons.IH [OF Cons.prems(1-3) this] show ?thesis .
    next
      case (Inr items)
      obtain r1 s1 where c1: "collectItems toLower c (r, s) items = (r1, s1)"
        by (cases "collectItems toLower c (r, s) items") auto
      from collectItems_inv [OF Cons.prems(1,2) lt c1]
      have i1: "distinct (map (canonicalArticleKey toLower) r1)"
        "canonicalArticleKey toLower ` set r1 \<subseteq> s1" "int (length r1) \<le> c"
        "length r \<le> length r1" by auto
      from Inr False c1 Cons.prems(4)
      have "queryProviders toLower c (r1, s1, fe) ps = (r', s', fe')" by simp
      from Cons.IH [OF i1(1-3) this] i1(4) show ?thesis by auto
    qed
  qed
qed

text \<open>
  Claim C8. For every target count \<open>N \<ge> 0\<close>, every chain of sources and whatever they
  return, a successful call of the composite provider returns at most \<open>N\<close> articles, and
  no two of them have the same canonical key.
\<close>

theorem composite_bounded_distinct:
  assumes "Composite_GetRecommendedArticles toLower ps N = Inr xs" and "0 \<le> N"
  shows "int (length xs) \<le> N \<and> distinct (map (canonicalArticleKey toLower) xs)"
proof (cases "N \<le> 0")
  case True
  with assms show ?thesis by (simp add: Composite_GetRecommendedArticles_def)
next
  case False
  obtain r s fe where q: "queryProviders toLower N ([], {}, None) ps = (r, s, fe)"
    by (cases "queryProviders toLower N ([], {}, None) ps") auto
  from queryProviders_inv [OF _ _ _ q] assms(2)
  have "distinct (map (canonicalArticleKey toLower) r)" "int (length r) \<le> N" by auto
  moreover from False q assms(1) have "xs = r"
    by (auto simp: Composite_GetRecommendedArticles_def split: option.splits if_splits)
  ultimately show ?thesis by simp
qed


text \<open>
  Three sources, the second of which fails; the first returns the same link twice, in two
  spellings, and an article without a link, which the third returns again.
\<close>

theorem composite_bounded_distinct_witness:
  "Composite_GetRecommendedArticles toLowerASCII threeProviders 3
     = Inr [graphsArticle, triesArticle, heapsArticle]
   \<and> int (length [graphsArticle, triesArticle, heapsArticle]) \<le> 3
   \<and> distinct (map (canonicalArticleKey toLowerASCII) [graphsArticle, triesArticle, heapsArticle])"
proof -
  have h: "Composite_GetRecommendedArticles toLowerASCII threeProviders 3
     = Inr [graphsArticle, triesArticle, heapsArticle]"
    by code_simp
  from composite_bounded_distinct [OF h] h show ?thesis by simp
qed

section \<open>When the composite provider fails\<close>

lemma collectItems_grows:
  "collectItems toLower c (r, s) items = (r', s') \<Longrightarrow> length r \<le> length r'"
proof (induction items arbitrary: r s)
  case Nil
  then show ?case by auto
next
  case (Cons item items)
  show ?case
  proof (cases "collectItems toLower c (r, s) items = (r', s')")
    case True
    from Cons.IH [OF this] show ?thesis .
  next
    case False
    with Cons.prems
    have "r' = r @ [item] \<or> collectItems toLower c
            (r @ [item], insert (canonicalArticleKey toLower item) s) items = (r', s')"
      by (auto simp: Let_def split: if_splits)
    then show ?thesis
    proof
      assume "r' = r @ [item]"
      then show ?thesis by simp
    next
      assume "collectItems toLower c
            (r @ [item], insert (canonicalArticleKey toLower item) s) items = (r', s')"
      from Cons.IH [OF this] show ?thesis by simp
    qed
  qed
qed

lemma queryProviders_grows:
  "queryProviders toLower c (r, s, fe) ps = (r', s', fe') \<Longrightarrow> length r \<le> length r'"
proof (induction ps arbitrary: r s fe)
  case Nil
  then show ?case by auto
next
  case (Cons p ps)
  show ?case
  proof (cases "int (length r) \<ge> c")
    case True
    with Cons.prems show ?thesis by auto
  next
    case False
    show ?thesis
    proof (cases "p (c - int (length r))")
      case (Inl e)
      with False Cons.prems
      have "queryProviders toLower c (r, s, (if fe = None then Some e else fe)) ps = (r', s', fe')"
        by simp
      from Cons.IH [OF this] show ?thesis .
    next
      case (Inr items)
      obtain r1 s1 where c1: "collectItems toLower c (r, s) items = (r1, s1)"
        by (cases "collectItems toLower c (r, s) items") auto
      from Inr False c1 Cons.prems
      have "queryProviders toLower c (r1, s1, fe) ps = (r', s', fe')" by simp
      from Cons.IH [OF this] collectItems_grows [OF c1] show ?thesis by simp
    qed
  qed
qed

lemma collectItems_empty:
  assumes "0 < c" and "collectItems toLower c ([], {}) items = (r', s')"
  shows "(r' = [] \<longleftrightarrow> filter (\<lambda>a. canonicalArticleKey toLower a \<noteq> []) items = [])
         \<and> (r' = [] \<longrightarrow> s' = {})"
  using assms(2)
proof (induction items)
  case Nil
  then show ?case by auto
next
  case (Cons item items)
  show ?case
  proof (cases "canonicalArticleKey toLower item = []")
    case True
    with Cons.prems have "collectItems toLower c ([], {}) items = (r', s')"
      by (simp add: Let_def)
    from Cons.IH [OF this] True show ?thesis by simp
  next
    case False
    with Cons.prems
    have "r' = [item] \<or> collectItems toLower c
            ([item], {canonicalArticleKey toLower item}) items = (r', s')"
      by (auto simp: Let_def split: if_splits)
    then have "r' \<noteq> []"
      using collectItems_grows [of toLower c "[item]" "{canonicalArticleKey toLower item}" items r' s']
      by auto
    with False show ?thesis by simp
  qed
qed

lemma queryProviders_empty:
  assumes "0 < c" and "queryProviders toLower c ([], {}, fe) ps = (r', s', fe')"
  shows "(r' = [] \<longleftrightarrow> (\<forall>p\<in>set ps. usableItems toLower (p c) = []))
         \<and> (r' = [] \<longrightarrow>
              fe' = (case fe of Some e \<Rightarrow> Some e | None \<Rightarrow> firstError (map (\<lambda>p. p c) ps)))"
  using assms(2)
proof (induction ps arbitrary: fe)
  case Nil
  then show ?case by (auto split: option.splits)
next
  case (Cons p ps)
  from assms(1) have nb: "\<not> int (length ([]::Article list)) \<ge> c" by simp
  show ?case
  proof (cases "p c")
    case (Inl e)
    with nb Cons.prems
    have q: "queryProviders toLower c ([], {}, (if fe = None then Some e else fe)) ps = (r', s', fe')"
      by simp
    from Cons.IH [OF q] Inl show ?thesis
      by (auto simp: usableItems_def split: option.splits)
  next
    case (Inr items)
    obtain r1 s1 where c1: "collectItems toLower c ([], {}) items = (r1, s1)"
      by (cases "collectItems toLower c ([], {}) items") auto
    from Inr nb c1 Cons.prems
    have q: "queryProviders toLower c (r1, s1, fe) ps = (r', s', fe')" by simp
    note ce = collectItems_empty [OF assms(1) c1]
    show ?thesis
    proof (cases "r1 = []")
      case True
      with ce have "s1 = {}" and nu: "usableItems toLower (p c) = []"
        using Inr by (auto simp: usableItems_def)
      with True q have "queryProviders toLower c ([], {}, fe) ps = (r', s', fe')" by simp
      from Cons.IH [OF this] nu Inr show ?thesis by (auto split: option.splits)
    next
      case False
      with queryProviders_grows [OF q] have "r' \<noteq> []" by auto
      moreover from False ce Inr have "usableItems toLower (p c) \<noteq> []"
        by (auto simp: usableItems_def)
      ultimately show ?thesis by auto
    qed
  qed
qed




lemma composite_all_fail:
  assumes "0 < N" and "ps \<noteq> []" and "\<forall>p\<in>set ps. \<exists>e. p N = Inl e"
  shows "\<exists>e. hd ps N = Inl e \<and> Composite_GetRecommendedArticles toLower ps N = Inl e"
proof -
  from assms(2) obtain p rest where ps: "ps = p # rest" by (cases ps) auto
  with assms(3) obtain e where e: "p N = Inl e" by auto
  from ps e have "firstError (map (\<lambda>p. p N) ps) = Some e" by simp
  moreover from assms(3) have "\<forall>p\<in>set ps. usableItems toLower (p N) = []"
    by (auto simp: usableItems_def)
  ultimately have "Composite_GetRecommendedArticles toLower ps N = Inl e"
    using queryProviders_empty [OF assms(1), of toLower None ps] assms(1)
    by (cases "queryProviders toLower N ([], {}, None) ps")
       (auto simp: Composite_GetRecommendedArticles_def split: option.splits)
  with ps e show ?thesis by simp
qed

section \<open>Shuffling permutes\<close>

lemma mset_swapAt:
  "i < length xs \<Longrightarrow> j < length xs \<Longrightarrow> mset (swapAt i j xs) = mset xs"
  unfolding swapAt_def by (simp add: mset_swap)

lemma length_swapAt: "length (swapAt i j xs) = length xs"
  by (simp add: swapAt_def)

lemma mset_shuffleLoop:
  "i < length xs \<Longrightarrow> mset (shuffleLoop pick i xs) = mset xs"
proof (induction i arbitrary: xs)
  case 0
  then show ?case by simp
next
  case (Suc i)
  have j: "pick (Suc i) mod Suc (Suc i) < length xs"
    using Suc.prems by (meson Suc_leI le_trans mod_less_divisor not_le zero_less_Suc)
  have "mset (shuffleLoop pick i (swapAt (Suc i) (pick (Suc i) mod Suc (Suc i)) xs))
        = mset (swapAt (Suc i) (pick (Suc i) mod Suc (Suc i)) xs)"
    using Suc.prems by (intro Suc.IH) (simp add: length_swapAt)
  also have "\<dots> = mset xs"
    using Suc.prems j by (rule mset_swapAt)
  finally show ?case by simp
qed

lemma mset_Shuffle: "mset (Shuffle pick xs) = mset xs"
proof (cases xs)
  case Nil
  then show ?thesis by (simp add: Shuffle_def)
next
  case (Cons x rest)
  then show ?thesis unfolding Shuffle_def by (intro mset_shuffleLoop) simp
qed

lemma set_Shuffle: "set (Shuffle pick xs) = set xs"
  using mset_Shuffle [of pick xs] by (rule mset_eq_setD)

lemma length_Shuffle: "length (Shuffle pick xs) = length xs"
  using mset_Shuffle [of pick xs] by (rule mset_eq_length)

lemma distinct_map_Shuffle:
  "distinct (map f (Shuffle pick xs)) \<longleftrightarrow> distinct (map f xs)"
proof -
  have "mset (map f (Shuffle pick xs)) = mset (map f xs)"
    by (simp add: mset_Shuffle)
  then show ?thesis by (rule mset_eq_imp_distinct_iff)
qed

section \<open>Random problems are free and named\<close>

lemma candidatesLoop_set:
  "set (candidatesLoop acc items) =
     set acc \<union> toProblem ` {i \<in> set items. \<not> PaidOnly i \<and> QuestionTitleSlug i \<noteq> []}"
  by (induction items arbitrary: acc) auto

text \<open>
  Claim C10. Every problem returned by the random fetch of the LeetCode client is built
  from an entry of the upstream problemset that is not paid-only and whose slug is not
  empty; so it has a slug.
\<close>

theorem random_problems_free_and_named:
  assumes "Client_GetRandomProblems pick upstream N = Inr ps" and "p \<in> set ps"
  shows "Slug p \<noteq> []
         \<and> (\<exists>pairs item. upstream = Inr pairs \<and> item \<in> set pairs \<and> p = toProblem item
               \<and> \<not> PaidOnly item \<and> QuestionTitleSlug item \<noteq> [])"
proof -
  from assms obtain pairs where up: "upstream = Inr pairs"
    and ps: "ps = take (nat (if N > int (length (candidatesLoop [] pairs))
                             then int (length (candidatesLoop [] pairs)) else N))
                    (Shuffle pick (candidatesLoop [] pairs))"
    by (auto simp: Client_GetRandomProblems_def Let_def split: if_splits sum.splits)
  from ps assms(2) have "p \<in> set (Shuffle pick (candidatesLoop [] pairs))"
    by (auto dest: in_set_takeD)
  then have "p \<in> set (candidatesLoop [] pairs)" by (simp add: set_Shuffle)
  then obtain item where "item \<in> set pairs" "p = toProblem item" "\<not> PaidOnly item"
      "QuestionTitleSlug item \<noteq> []"
    by (auto simp: candidatesLoop_set)
  with up show ?thesis by (auto simp: toProblem_def)
qed

text \<open>
  An upstream problemset with a paid-only entry, an entry without slug and a free entry:
  a request for two problems returns the free one alone.
\<close>

theorem random_problems_free_and_named_witness:
  "Client_GetRandomProblems (\<lambda>i. 0) (Inr [paidPair, unnamedPair, freePair]) 2 = Inr [toProblem freePair]
   \<and> Slug (toProblem freePair) \<noteq> []"
proof -
  have h: "Client_GetRandomProblems (\<lambda>i. 0) (Inr [paidPair, unnamedPair, freePair]) 2
             = Inr [toProblem freePair]"
    by (simp add: Client_GetRandomProblems_def paidPair_def unnamedPair_def freePair_def
          Shuffle_def)
  from random_problems_free_and_named [OF h, of "toProblem freePair"] h show ?thesis by simp
qed

section \<open>Supplementary problems exclude the featured problem\<close>

lemma Client_slug_nonempty:
  assumes "Client_GetRandomProblems pick upstream N = Inr ps" and "q \<in> set ps"
  shows "Slug q \<noteq> []"
proof -
  from assms obtain pairs where up: "upstream = Inr pairs" and
    ps: "ps = take (nat (if N > int (length (candidatesLoop [] pairs))
                         then int (length (candidatesLoop [] pairs)) else N))
                (Shuffle pick (candidatesLoop [] pairs))"
    by (auto simp: Client_GetRandomProblems_def Let_def split: if_splits sum.splits)
  from ps assms(2) have "q \<in> set (Shuffle pick (candidatesLoop [] pairs))"
    by (auto dest: in_set_takeD)
  then have "q \<in> set (candidatesLoop [] pairs)" by (simp add: set_Shuffle)
  then show ?thesis by (auto simp: candidatesLoop_set toProblem_def)
qed

text \<open>
  Claim C4. The problem provider of the digest is the LeetCode client, the provider the
  repository wires in. For every requested count, every upstream problemset and every
  featured problem, the supplementary problems have pairwise distinct slugs and none of
  them has the slug of the featured problem.
\<close>

theorem supplementary_excludes_featured:
  assumes "GetRandomProblems (problems d) = Client_GetRandomProblems pick upstream"
  shows "distinct (map Slug (fetchRandomProblems d daily))
         \<and> (\<forall>p. daily = Some p \<longrightarrow> Slug p \<notin> Slug ` set (fetchRandomProblems d daily))"
proof -
  note u = fetchRandomProblems_unique [of d daily]
  have "Slug p \<notin> Slug ` set (fetchRandomProblems d daily)" if p: "daily = Some p" for p
  proof (cases "Slug p = []")
    case False
    with u p show ?thesis by blast
  next
    case True
    show ?thesis
    proof
      assume "Slug p \<in> Slug ` set (fetchRandomProblems d daily)"
      then obtain q where q: "q \<in> set (fetchRandomProblems d daily)" "Slug q = Slug p"
        by auto
      from fetchRandomProblems_subset [OF q(1)] assms obtain ps where
        "Client_GetRandomProblems pick upstream (randomCount d) = Inr ps" "q \<in> set ps"
        by auto
      then have "Slug q \<noteq> []" by (rule Client_slug_nonempty)
      with q(2) True show False by simp
    qed
  qed
  with u show ?thesis by blast
qed

text \<open>
  The scenario of the specification: the featured problem is \<open>two-sum\<close> and the client
  returns \<open>two-sum\<close>, \<open>three-sum\<close>, \<open>four-sum\<close>; the result is \<open>three-sum\<close>, \<open>four-sum\<close>.
\<close>

theorem supplementary_scenario:
  "fetchRandomProblems clientDigest (Some twoSum) = [toProblem threeSumPair, toProblem fourSumPair]
   \<and> map Slug [toProblem threeSumPair, toProblem fourSumPair] = [''three-sum'', ''four-sum'']
   \<and> distinct (map Slug [toProblem threeSumPair, toProblem fourSumPair])
   \<and> Slug twoSum \<notin> Slug ` set [toProblem threeSumPair, toProblem fourSumPair]"
proof -
  have h: "GetRandomProblems (problems clientDigest)
             = Client_GetRandomProblems (\<lambda>i. i) (Inr [freePair, threeSumPair, fourSumPair])"
    by (simp add: clientDigest_def)
  have c: "Client_GetRandomProblems (\<lambda>i. i) (Inr [freePair, threeSumPair, fourSumPair]) 3
             = Inr [toProblem freePair, toProblem threeSumPair, toProblem fourSumPair]"
    by (simp add: Client_GetRandomProblems_def freePair_def threeSumPair_def fourSumPair_def
          Shuffle_def swapAt_def numeral_2_eq_2)
  have r: "fetchRandomProblems clientDigest (Some twoSum)
             = [toProblem threeSumPair, toProblem fourSumPair]"
    using c
    by (simp add: fetchRandomProblems_def clientDigest_def twoSum_def toProblem_def
          freePair_def threeSumPair_def fourSumPair_def)
  have m: "map Slug [toProblem threeSumPair, toProblem fourSumPair] = [''three-sum'', ''four-sum'']"
    by (simp add: toProblem_def threeSumPair_def fourSumPair_def)
  from supplementary_excludes_featured [OF h, of "Some twoSum"] r m show ?thesis by simp
qed

section \<open>The two tiers of the Medium provider\<close>

lemma dedupLoop_inv:
  assumes "distinct (map fst acc)" and "\<forall>(k, a)\<in>set acc. k = linkKey toLower a \<and> k \<noteq> []"
  shows "distinct (map fst (dedupLoop toLower acc xs))
         \<and> (\<forall>(k, a)\<in>set (dedupLoop toLower acc xs). k = linkKey toLower a \<and> k \<noteq> [])
         \<and> fst ` set (dedupLoop toLower acc xs)
             = fst ` set acc \<union> {k \<in> linkKey toLower ` set xs. k \<noteq> []}
         \<and> snd ` set (dedupLoop toLower acc xs) \<subseteq> snd ` set acc \<union> set xs"
  using assms
proof (induction xs arbitrary: acc)
  case Nil
  then show ?case by simp
next
  case (Cons x xs)
  let ?k = "toLower (strings_TrimSpace (Article.Link x))"
  have k: "?k = linkKey toLower x" by (simp add: linkKey_def)
  show ?case
  proof (cases "?k = [] \<or> ?k \<in> fst ` set acc")
    case True
    then have "dedupLoop toLower acc (x # xs) = dedupLoop toLower acc xs"
      by (auto simp: Let_def)
    with Cons.IH [OF Cons.prems] True k show ?thesis by auto
  next
    case False
    then have eq: "dedupLoop toLower acc (x # xs) = dedupLoop toLower (acc @ [(?k, x)]) xs"
      by (auto simp: Let_def)
    have d: "distinct (map fst (acc @ [(?k, x)]))" using Cons.prems(1) False by auto
    have a: "\<forall>(k, a)\<in>set (acc @ [(?k, x)]). k = linkKey toLower a \<and> k \<noteq> []"
      using Cons.prems(2) False k by auto
    from Cons.IH [OF d a] eq False k show ?thesis by auto
  qed
qed

lemma dedupLoop_unique:
  "distinct (map (linkKey toLower) (map snd (dedupLoop toLower [] xs)))
   \<and> length (dedupLoop toLower [] xs) = length (uniqueLinks toLower xs)
   \<and> set (map snd (dedupLoop toLower [] xs)) \<subseteq> set xs
   \<and> [] \<notin> linkKey toLower ` set (map snd (dedupLoop toLower [] xs))"
proof -
  let ?d = "dedupLoop toLower [] xs"
  from dedupLoop_inv [of "[]" toLower xs]
  have d: "distinct (map fst ?d)"
    and ka: "\<forall>(k, a)\<in>set ?d. k = linkKey toLower a \<and> k \<noteq> []"
    and ks: "fst ` set ?d = {k \<in> linkKey toLower ` set xs. k \<noteq> []}"
    and sub: "snd ` set ?d \<subseteq> set xs"
    by auto
  from ka have m: "map (linkKey toLower) (map snd ?d) = map fst ?d" by auto
  have "length ?d = length (map fst ?d)" by simp
  also have "\<dots> = card (set (map fst ?d))" using distinct_card [OF d] by simp
  also have "set (map fst ?d) = set (filter (\<lambda>k. k \<noteq> []) (map (linkKey toLower) xs))"
    using ks by auto
  also have "card \<dots> = length (uniqueLinks toLower xs)"
    by (simp add: uniqueLinks_def length_remdups_card_conv)
  finally have len: "length ?d = length (uniqueLinks toLower xs)" .
  from ka have ne: "[] \<notin> linkKey toLower ` set (map snd ?d)" by fastforce
  have dm: "distinct (map (linkKey toLower) (map snd ?d))" unfolding m by (rule d)
  from sub have sub': "set (map snd ?d) \<subseteq> set xs" by simp
  from dm len sub' ne show ?thesis by blast
qed

lemma Medium_called:
  assumes "0 < N"
    and "Medium_GetRecommendedArticles toLower iter pick fetchPrimary fetchProxy N = (called, res)"
  shows "called = (if int (length (itemsOf fetchPrimary)) < N then [Primary, Proxy] else [Primary])"
  using assms
  by (auto simp: Medium_GetRecommendedArticles_def Let_def itemsOf_def
           split: sum.splits if_splits prod.splits)


lemma Medium_result:
  assumes "0 < N"
    and "Medium_GetRecommendedArticles toLower iter pick fetchPrimary fetchProxy N = (called, res)"
  shows "res =
     (if mergedItems called fetchPrimary fetchProxy = []
      then Inl (case (if Proxy \<in> set called
                      then (case fetchProxy of Inl e \<Rightarrow> Some e
                            | Inr items \<Rightarrow> (case fetchPrimary of Inl e \<Rightarrow> Some e | Inr items \<Rightarrow> None))
                      else (case fetchPrimary of Inl e \<Rightarrow> Some e | Inr items \<Rightarrow> None)) of
                 Some e \<Rightarrow> e | None \<Rightarrow> Error ''no medium articles available'')
      else if Shuffle iter (map snd (dedupLoop toLower [] (mergedItems called fetchPrimary fetchProxy))) = []
      then Inl (Error ''medium feed returned no usable articles'')
      else Inr (take (nat (min N (int (length (dedupLoop toLower []
                                  (mergedItems called fetchPrimary fetchProxy))))))
                  (Shuffle pick (Shuffle iter (map snd (dedupLoop toLower []
                                  (mergedItems called fetchPrimary fetchProxy)))))))"
proof -
  note c = Medium_called [OF assms]
  show ?thesis
  proof (cases "int (length (itemsOf fetchPrimary)) < N")
    case True
    with c have called: "called = [Primary, Proxy]" by simp
    from assms True called show ?thesis
      by (cases fetchPrimary; cases fetchProxy)
         (auto simp: Medium_GetRecommendedArticles_def Let_def itemsOf_def mergedItems_def
             length_Shuffle min_def split: if_splits)
  next
    case False
    with c have called: "called = [Primary]" by simp
    from assms False called show ?thesis
      by (cases fetchPrimary)
         (auto simp: Medium_GetRecommendedArticles_def Let_def itemsOf_def mergedItems_def
             length_Shuffle min_def split: if_splits)
  qed
qed

lemma length_uniqueLinks_le: "length (uniqueLinks toLower xs) \<le> length xs"
proof -
  have "length (uniqueLinks toLower xs) \<le> length (filter (\<lambda>k. k \<noteq> []) (map (linkKey toLower) xs))"
    unfolding uniqueLinks_def by (rule length_remdups_leq)
  also have "\<dots> \<le> length (map (linkKey toLower) xs)" by (rule length_filter_le)
  finally show ?thesis by simp
qed

text \<open>
  Claim C5, as the code has it. For a requested count \<open>N > 0\<close> the proxy feed is called exactly when the
  primary feed gave fewer than \<open>N\<close> items, hence only when it gave fewer than \<open>N\<close> items
  with distinct keys. The items of the feeds that were called are merged; when at least
  one of them has a non-empty key the call succeeds and returns items of the merged list
  with pairwise distinct, non-empty keys, as many as the smaller of \<open>N\<close> and the number of
  distinct non-empty keys in the merged list. Otherwise, when no merged item has a
  non-empty key, the call fails with an error: it does not return an empty list.
\<close>

theorem medium_two_tier:
  assumes "0 < N"
    and "Medium_GetRecommendedArticles toLower iter pick fetchPrimary fetchProxy N = (called, res)"
  shows "(Proxy \<in> set called \<longleftrightarrow> int (length (itemsOf fetchPrimary)) < N)
       \<and> (Proxy \<in> set called \<longrightarrow> int (length (uniqueLinks toLower (itemsOf fetchPrimary))) < N)
       \<and> (uniqueLinks toLower (mergedItems called fetchPrimary fetchProxy) \<noteq> [] \<longrightarrow>
            (\<exists>xs. res = Inr xs
               \<and> int (length xs)
                   = min N (int (length (uniqueLinks toLower (mergedItems called fetchPrimary fetchProxy))))
               \<and> distinct (map (linkKey toLower) xs)
               \<and> [] \<notin> linkKey toLower ` set xs
               \<and> set xs \<subseteq> set (mergedItems called fetchPrimary fetchProxy)))
       \<and> (uniqueLinks toLower (mergedItems called fetchPrimary fetchProxy) = [] \<longrightarrow>
            (\<exists>e. res = Inl e))"
proof -
  let ?merged = "mergedItems called fetchPrimary fetchProxy"
  let ?d = "dedupLoop toLower [] ?merged"
  let ?u = "Shuffle iter (map snd ?d)"
  note c = Medium_called [OF assms]
  note r = Medium_result [OF assms]
  note du = dedupLoop_unique [of toLower ?merged]
  have a: "Proxy \<in> set called \<longleftrightarrow> int (length (itemsOf fetchPrimary)) < N"
    using c by simp
  have b: "Proxy \<in> set called \<longrightarrow> int (length (uniqueLinks toLower (itemsOf fetchPrimary))) < N"
    using a length_uniqueLinks_le [of toLower "itemsOf fetchPrimary"] by auto
  have lu: "length ?u = length (uniqueLinks toLower ?merged)"
    using du by (simp add: length_Shuffle)
  have d: "uniqueLinks toLower ?merged = [] \<longrightarrow> (\<exists>e. res = Inl e)"
  proof
    assume "uniqueLinks toLower ?merged = []"
    with lu have "?u = []" by simp
    with r show "\<exists>e. res = Inl e" by (auto split: if_splits)
  qed
  have e: "uniqueLinks toLower ?merged \<noteq> [] \<longrightarrow>
            (\<exists>xs. res = Inr xs
               \<and> int (length xs) = min N (int (length (uniqueLinks toLower ?merged)))
               \<and> distinct (map (linkKey toLower) xs)
               \<and> [] \<notin> linkKey toLower ` set xs
               \<and> set xs \<subseteq> set ?merged)"
  proof
    assume ne: "uniqueLinks toLower ?merged \<noteq> []"
    then have mne: "?merged \<noteq> []" by (auto simp: uniqueLinks_def)
    from ne lu have une: "?u \<noteq> []" by auto
    let ?n = "nat (min N (int (length ?d)))"
    let ?xs = "take ?n (Shuffle pick ?u)"
    from r mne une have res: "res = Inr ?xs" by simp
    have "length ?xs = min ?n (length ?d)" by (simp add: length_Shuffle)
    moreover have "length ?d = length (uniqueLinks toLower ?merged)" using du by simp
    ultimately have len: "int (length ?xs) = min N (int (length (uniqueLinks toLower ?merged)))"
      using assms(1) by linarith
    have "distinct (map (linkKey toLower) (Shuffle pick ?u))"
      using du by (simp add: distinct_map_Shuffle del: map_map)
    then have "distinct (take ?n (map (linkKey toLower) (Shuffle pick ?u)))"
      by (rule distinct_take)
    then have dist: "distinct (map (linkKey toLower) ?xs)" by (simp add: take_map)
    have sub: "set ?xs \<subseteq> set (map snd ?d)"
      using set_take_subset [of ?n "Shuffle pick ?u"] by (simp add: set_Shuffle)
    with du have sub': "set ?xs \<subseteq> set ?merged" by blast
    from du sub have "[] \<notin> linkKey toLower ` set ?xs" by blast
    with res len dist sub' show "\<exists>xs. res = Inr xs
               \<and> int (length xs) = min N (int (length (uniqueLinks toLower ?merged)))
               \<and> distinct (map (linkKey toLower) xs)
               \<and> [] \<notin> linkKey toLower ` set xs
               \<and> set xs \<subseteq> set ?merged" by blast
  qed
  from a b e d show ?thesis by blast
qed

text \<open>
  Two calls for two articles. In the first the primary feed gives one article, so the
  proxy is called; it repeats that article under another spelling of the link and adds a
  second one. In the second the primary feed gives two articles and the proxy is not called.
\<close>

theorem medium_two_tier_witness:
  "Medium_GetRecommendedArticles toLowerASCII (\<lambda>i. i) (\<lambda>i. 0)
       (Inr [mediumA]) (Inr [mediumA', mediumB]) 2 = ([Primary, Proxy], Inr [mediumB, mediumA])
   \<and> int (length (uniqueLinks toLowerASCII (itemsOf (Inr [mediumA])))) < 2
   \<and> int (length [mediumB, mediumA])
        = min 2 (int (length (uniqueLinks toLowerASCII [mediumA, mediumA', mediumB])))
   \<and> distinct (map (linkKey toLowerASCII) [mediumB, mediumA])
   \<and> Medium_GetRecommendedArticles toLowerASCII (\<lambda>i. i) (\<lambda>i. 0)
       (Inr [mediumA, mediumB]) (Inr [mediumA']) 2 = ([Primary], Inr [mediumB, mediumA])
   \<and> \<not> int (length (itemsOf (Inr [mediumA, mediumB]))) < 2"
proof -
  have h1: "Medium_GetRecommendedArticles toLowerASCII (\<lambda>i. i) (\<lambda>i. 0)
       (Inr [mediumA]) (Inr [mediumA', mediumB]) 2 = ([Primary, Proxy], Inr [mediumB, mediumA])"
    by code_simp
  have h2: "Medium_GetRecommendedArticles toLowerASCII (\<lambda>i. i) (\<lambda>i. 0)
       (Inr [mediumA, mediumB]) (Inr [mediumA']) 2 = ([Primary], Inr [mediumB, mediumA])"
    by code_simp
  have m: "mergedItems [Primary, Proxy] (Inr [mediumA]) (Inr [mediumA', mediumB])
             = [mediumA, mediumA', mediumB]"
    by (simp add: mergedItems_def itemsOf_def)
  have u: "uniqueLinks toLowerASCII [mediumA, mediumA', mediumB] \<noteq> []"
    by code_simp
  from medium_two_tier [OF _ h1] m u
  have "int (length (uniqueLinks toLowerASCII (itemsOf (Inr [mediumA])))) < 2
   \<and> int (length [mediumB, mediumA])
        = min 2 (int (length (uniqueLinks toLowerASCII [mediumA, mediumA', mediumB])))
   \<and> distinct (map (linkKey toLowerASCII) [mediumB, mediumA])"
    by simp
  moreover from medium_two_tier [OF _ h2]
  have "\<not> int (length (itemsOf (Inr [mediumA, mediumB]))) < 2" by simp
  ultimately show ?thesis using h1 h2 by simp
qed

text \<open>
  The claim as written fails when no item is available: with both feeds down, a request
  for two articles calls both feeds and returns the error of the proxy, where the claim
  has a subset of size 0 returned.
\<close>

theorem medium_nothing_available_counterexample:
  "Medium_GetRecommendedArticles toLowerASCII (\<lambda>i. i) (\<lambda>i. 0)
       (Inl (Error ''medium primary down'')) (Inl (Error ''medium proxy down'')) 2
     = ([Primary, Proxy], Inl (Error ''medium proxy down''))
   \<and> uniqueLinks toLowerASCII
        (mergedItems [Primary, Proxy]
           (Inl (Error ''medium primary down'')) (Inl (Error ''medium proxy down''))) = []"
  by (simp add: Medium_GetRecommendedArticles_def uniqueLinks_def mergedItems_def itemsOf_def)

section \<open>The narrative handed back by the composer\<close>

lemma trimLeftSpace_id: "spaceWidth s = 0 \<Longrightarrow> trimLeftSpace s = s"
  by (subst trimLeftSpace.simps) simp

lemma trimRightSpace_id: "trailingSpaceWidth s = 0 \<Longrightarrow> trimRightSpace s = s"
  by (subst trimRightSpace.simps) simp

lemma TrimSpace_id:
  "spaceWidth s = 0 \<Longrightarrow> trailingSpaceWidth s = 0 \<Longrightarrow> strings_TrimSpace s = s"
  by (simp add: strings_TrimSpace_def trimLeftSpace_id trimRightSpace_id)

lemma take_longNarrative:
  "take 1997 longNarrative = ''ab '' @ replicate 1994 (CHR ''x'')"
  by (simp add: longNarrative_def)

lemma replicate_2_3: "replicate 2 c = [c, c]" "replicate 3 c = [c, c, c]"
  by (simp_all add: numeral_2_eq_2 numeral_3_eq_3)

lemma TrimSpace_longNarrative:
  "strings_TrimSpace (''ab '' @ replicate 1994 (CHR ''x'')) = ''ab '' @ replicate 1994 (CHR ''x'')"
proof (rule TrimSpace_id)
  show "spaceWidth (''ab '' @ replicate 1994 (CHR ''x'')) = 0"
    by (simp add: spaceWidth_def spaceRunes_def)
  show "trailingSpaceWidth (''ab '' @ replicate 1994 (CHR ''x'')) = 0"
    by (simp add: trailingSpaceWidth_def spaceRunes_def replicate_2_3)
qed

lemma Compose_longNarrative:
  "Compose ''key'' ''gemini-2.5-flash'' (\<lambda>m. (longNarrative, 200, None)) = Some (Inr longNarrativeCut)"
proof -
  have "\<not> int (length longNarrative) \<le> 2000" by (simp add: longNarrative_def)
  moreover have "slice_to longNarrative (2000 - 3) = Some (take 1997 longNarrative)"
    by (simp add: slice_to_def longNarrative_def)
  ultimately have "trimText longNarrative 2000
      = Some (strings_TrimSpace (take 1997 longNarrative) @ ''...'')"
    by (simp add: trimText_def)
  also have "\<dots> = Some longNarrativeCut"
    unfolding take_longNarrative TrimSpace_longNarrative longNarrativeCut_def by simp
  finally show ?thesis
    by (simp add: Compose_def maxDiscordDescription_def)
qed

text \<open>
  Claim C6, as the code has it. When the backend returns a text without error, a
  configured composer returns a narrative of at most 2000 bytes: the text itself when it
  is within 2000 bytes, and otherwise its first 1997 bytes, stripped of the white space
  around them, followed by the marker \<open>...\<close>. The cut is at byte 1997, wherever the
  white space of the text is.
\<close>

theorem compose_truncates:
  assumes "apiKey \<noteq> []" and "model \<noteq> []" and "generate model = (text', status, None)"
  shows "\<exists>r. Compose apiKey model generate = Some (Inr r)
            \<and> length r \<le> 2000
            \<and> (length text' \<le> 2000 \<longrightarrow> r = text')
            \<and> (2000 < length text' \<longrightarrow> r = strings_TrimSpace (take 1997 text') @ ''...'')"
proof -
  from assms have c: "Compose apiKey model generate = map_option Inr (trimText text' 2000)"
    by (simp add: Compose_def maxDiscordDescription_def)
  obtain r where r: "trimText text' 2000 = Some r" "int (length r) \<le> 2000"
    using trimText_bound [of 2000 text'] by auto
  have "length text' \<le> 2000 \<longrightarrow> r = text'"
    using r(1) by (auto simp: trimText_def)
  moreover have "2000 < length text' \<longrightarrow> r = strings_TrimSpace (take 1997 text') @ ''...''"
    using r(1) by (auto simp: trimText_def slice_to_def)
  ultimately show ?thesis using c r by auto
qed

text \<open>The theorem at a short narrative and at a narrative of 2003 bytes.\<close>

theorem compose_truncates_witness:
  "Compose ''key'' ''gemini-2.5-flash'' (\<lambda>m. (''Study heaps today.'', 200, None))
     = Some (Inr ''Study heaps today.'')
   \<and> Compose ''key'' ''gemini-2.5-flash'' (\<lambda>m. (longNarrative, 200, None))
     = Some (Inr (strings_TrimSpace (take 1997 longNarrative) @ ''...''))
   \<and> length (strings_TrimSpace (take 1997 longNarrative) @ ''...'') \<le> 2000"
proof -
  have l: "2000 < length longNarrative" by (simp add: longNarrative_def)
  from compose_truncates [of "''key''" "''gemini-2.5-flash''"
         "\<lambda>m. (''Study heaps today.'', 200, None)" "''Study heaps today.''" 200]
  have a: "Compose ''key'' ''gemini-2.5-flash'' (\<lambda>m. (''Study heaps today.'', 200, None))
     = Some (Inr ''Study heaps today.'')"
    by auto
  from compose_truncates [of "''key''" "''gemini-2.5-flash''"
         "\<lambda>m. (longNarrative, 200, None)" longNarrative 200] l
  have b: "Compose ''key'' ''gemini-2.5-flash'' (\<lambda>m. (longNarrative, 200, None))
     = Some (Inr (strings_TrimSpace (take 1997 longNarrative) @ ''...''))
   \<and> length (strings_TrimSpace (take 1997 longNarrative) @ ''...'') \<le> 2000"
    by auto
  from a b show ?thesis by simp
qed

text \<open>
  The claim as written fails on the text \<open>ab\<close>, a blank and 2000 letters: a white-space
  rune starts at position 2, inside the budget, and the narrative handed back is cut
  inside the run of letters, not at a white-space boundary.
\<close>

theorem compose_cut_counterexample:
  "Compose ''key'' ''gemini-2.5-flash'' (\<lambda>m. (longNarrative, 200, None)) = Some (Inr longNarrativeCut)
   \<and> spaceWidth (drop 2 longNarrative) = 1
   \<and> \<not> cutAtWhitespace longNarrative longNarrativeCut"
proof -
  have s: "spaceWidth (drop 2 longNarrative) = 1"
    by (simp add: longNarrative_def spaceWidth_def spaceRunes_def)
  have "\<not> cutAtWhitespace longNarrative longNarrativeCut"
  proof
    assume "cutAtWhitespace longNarrative longNarrativeCut"
    then obtain k where k: "k < length longNarrative" "0 < spaceWidth (drop k longNarrative)"
        "longNarrativeCut = take k longNarrative @ ''...''"
      by (auto simp: cutAtWhitespace_def list_ex_iff)
    from k(3) have "length longNarrativeCut = length (take k longNarrative @ ''...'')" by simp
    with k(1) have "k = 1997" by (simp add: longNarrativeCut_def longNarrative_def)
    moreover have "spaceWidth (drop 1997 longNarrative) = 0"
      by (simp add: longNarrative_def spaceWidth_def spaceRunes_def replicate_2_3)
    ultimately show False using k(2) by simp
  qed
  with s Compose_longNarrative show ?thesis by simp
qed

end
